theory Spec2Isabelle
  imports Main "HOL-Library.Word" "HOL-Library.Multiset"
begin

section \<open>The JavaScript helpers of \<^verbatim>\<open>src/utils.js\<close>\<close>

subsection \<open>Strings and values\<close>

text \<open>
  A JavaScript string is a sequence of UTF-16 code units: \<^verbatim>\<open>length\<close> and
  \<^verbatim>\<open>slice\<close> count code units. \<open>utf16\<close> writes an ASCII literal as such a
  sequence.
\<close>

type_synonym jsstring = "16 word list"

definition utf16 :: "string \<Rightarrow> jsstring" where
  "utf16 s = map of_char s"

text \<open>
  Plain data as the helpers receive it. Numbers are restricted to the integers (doubles
  are not modelled); objects and arrays nested inside an element are immutable values,
  which is what a shallow copy observes when nothing writes to them.
\<close>

datatype jsval =
    JUndefined
  | JNull
  | JBool bool
  | JNum int
  | JStr jsstring
  | JArr "jsval list"
  | JObj "(jsstring \<times> jsval) list"

subsection \<open>\<^verbatim>\<open>truncateText\<close>\<close>

text \<open>
  \<^verbatim>\<open>String.prototype.slice(start, end)\<close> on integer arguments: a negative index
  counts from the end, both indices are clamped to the string, and an empty range gives
  the empty string.
\<close>

definition js_slice :: "jsstring \<Rightarrow> int \<Rightarrow> int \<Rightarrow> jsstring" where
  "js_slice s start fin =
     (let len = int (length s);
          from = (if start < 0 then max (len + start) 0 else min start len);
          to = (if fin < 0 then max (len + fin) 0 else min fin len)
      in take (nat (to - from)) (drop (nat from) s))"

text \<open>
  \<^verbatim>\<open>
  export function truncateText(text, maxLength = 50) {
    if (text.length <= maxLength) return text
    return text.slice(0, maxLength) + '...'
  }
  \<close>
  The second argument is \<open>None\<close> when the caller omits it (the default 50 applies)
  and an integer otherwise.
\<close>

definition truncateText :: "jsstring \<Rightarrow> int option \<Rightarrow> jsstring" where
  "truncateText text maxLength =
     (let m = (case maxLength of None \<Rightarrow> 50 | Some m \<Rightarrow> m)
      in if int (length text) \<le> m then text
         else js_slice text 0 m @ utf16 ''...'')"

subsection \<open>\<^verbatim>\<open>sortBy\<close>\<close>

text \<open>\<^verbatim>\<open>key.split('.')\<close>: the pieces between separators; never the empty list.\<close>

fun split_on :: "'a \<Rightarrow> 'a list \<Rightarrow> 'a list list" where
  "split_on d [] = [[]]"
| "split_on d (c # cs) =
     (if c = d then [] # split_on d cs
      else (case split_on d cs of
              [] \<Rightarrow> [[c]]
            | p # ps \<Rightarrow> (c # p) # ps))"

text \<open>
  A property name that is a canonical array index: decimal digits with no leading zero
  (\<^verbatim>\<open>"0"\<close> itself apart).
\<close>

definition digit_of :: "16 word \<Rightarrow> nat option" where
  "digit_of c = (if 48 \<le> unat c \<and> unat c \<le> 57 then Some (unat c - 48) else None)"

fun digits_value :: "nat \<Rightarrow> jsstring \<Rightarrow> nat option" where
  "digits_value acc [] = Some acc"
| "digits_value acc (c # cs) =
     (case digit_of c of
        None \<Rightarrow> None
      | Some d \<Rightarrow> digits_value (10 * acc + d) cs)"

definition array_index :: "jsstring \<Rightarrow> nat option" where
  "array_index k =
     (case k of
        [] \<Rightarrow> None
      | c # cs \<Rightarrow> if c = 48 \<and> cs \<noteq> [] then None else digits_value 0 k)"

text \<open>
  \<^verbatim>\<open>obj?.[k]\<close>: \<^verbatim>\<open>undefined\<close> on \<^verbatim>\<open>undefined\<close> and \<^verbatim>\<open>null\<close>, the own property
  otherwise. An object's first entry for a name is its property; a string and an array
  have \<^verbatim>\<open>length\<close> and their indices. Inherited methods are not modelled: they read as
  \<^verbatim>\<open>undefined\<close>.
\<close>

fun get_prop :: "jsval \<Rightarrow> jsstring \<Rightarrow> jsval" where
  "get_prop JUndefined k = JUndefined"
| "get_prop JNull k = JUndefined"
| "get_prop (JBool b) k = JUndefined"
| "get_prop (JNum n) k = JUndefined"
| "get_prop (JStr s) k =
     (if k = utf16 ''length'' then JNum (int (length s))
      else (case array_index k of
              None \<Rightarrow> JUndefined
            | Some i \<Rightarrow> if i < length s then JStr [s ! i] else JUndefined))"
| "get_prop (JArr xs) k =
     (if k = utf16 ''length'' then JNum (int (length xs))
      else (case array_index k of
              None \<Rightarrow> JUndefined
            | Some i \<Rightarrow> if i < length xs then xs ! i else JUndefined))"
| "get_prop (JObj ps) k = (case map_of ps k of None \<Rightarrow> JUndefined | Some v \<Rightarrow> v)"

text \<open>\<^verbatim>\<open>key.split('.').reduce((obj, k) => obj?.[k], a)\<close>\<close>

definition key_path :: "jsstring \<Rightarrow> jsval \<Rightarrow> jsval" where
  "key_path key a = foldl get_prop a (split_on 46 key)"

text \<open>
  The comparator passed to \<^verbatim>\<open>sort\<close>. \<open>lt\<close> is JavaScript's \<^verbatim>\<open><\<close> on two values
  (\<^verbatim>\<open>a > b\<close> is \<^verbatim>\<open>b < a\<close>); it is a parameter, so that what is proved holds for
  whatever the operator answers, a comparison that is not an order included.
  \<open>direction\<close> is \<open>None\<close> when omitted (the default \<^verbatim>\<open>'asc'\<close>).
\<close>

definition sortBy_compare ::
  "(jsval \<Rightarrow> jsval \<Rightarrow> bool) \<Rightarrow> jsstring \<Rightarrow> jsstring option \<Rightarrow> jsval \<Rightarrow> jsval \<Rightarrow> int" where
  "sortBy_compare lt key direction a b =
     (let dir = (case direction of None \<Rightarrow> utf16 ''asc'' | Some d \<Rightarrow> d);
          aVal = key_path key a;
          bVal = key_path key b
      in if lt aVal bVal then (if dir = utf16 ''asc'' then -1 else 1)
         else if lt bVal aVal then (if dir = utf16 ''asc'' then 1 else -1)
         else 0)"

text \<open>
  \<^verbatim>\<open>Array.prototype.sort(comparefn)\<close>. The language's \<^verbatim>\<open>SortCompare\<close> puts
  \<^verbatim>\<open>undefined\<close> elements last without calling the comparator; the order of the calls
  is left to the engine, and a stable insertion sort stands for it here.
\<close>

definition SortCompare :: "(jsval \<Rightarrow> jsval \<Rightarrow> int) \<Rightarrow> jsval \<Rightarrow> jsval \<Rightarrow> int" where
  "SortCompare comparefn x y =
     (if x = JUndefined \<and> y = JUndefined then 0
      else if x = JUndefined then 1
      else if y = JUndefined then -1
      else comparefn x y)"

fun insert_sorted :: "(jsval \<Rightarrow> jsval \<Rightarrow> int) \<Rightarrow> jsval \<Rightarrow> jsval list \<Rightarrow> jsval list" where
  "insert_sorted comparefn x [] = [x]"
| "insert_sorted comparefn x (y # ys) =
     (if 0 < SortCompare comparefn x y then y # insert_sorted comparefn x ys
      else x # y # ys)"

definition sorted_elements :: "(jsval \<Rightarrow> jsval \<Rightarrow> int) \<Rightarrow> jsval list \<Rightarrow> jsval list" where
  "sorted_elements comparefn xs = foldr (insert_sorted comparefn) xs []"

text \<open>
  Arrays are mutable and shared, so they live in a store: an address is an index into
  the list of all arrays allocated so far. \<^verbatim>\<open>[...array]\<close> allocates a new array with
  the elements of the old one; \<^verbatim>\<open>sort\<close> overwrites the array it is called on and
  returns its address.
\<close>

type_synonym store = "jsval list list"

definition spread :: "store \<Rightarrow> nat \<Rightarrow> store \<times> nat" where
  "spread h a = (h @ [h ! a], length h)"

definition array_sort :: "(jsval \<Rightarrow> jsval \<Rightarrow> int) \<Rightarrow> store \<Rightarrow> nat \<Rightarrow> store \<times> nat" where
  "array_sort comparefn h a = (h[a := sorted_elements comparefn (h ! a)], a)"

text \<open>
  \<^verbatim>\<open>
  export function sortBy(array, key, direction = 'asc') {
    return [...array].sort((a, b) => { ... })
  }
  \<close>
\<close>

definition sortBy ::
  "(jsval \<Rightarrow> jsval \<Rightarrow> bool) \<Rightarrow> store \<Rightarrow> nat \<Rightarrow> jsstring \<Rightarrow> jsstring option \<Rightarrow> store \<times> nat" where
  "sortBy lt h array key direction =
     (let (h1, copy) = spread h array
      in array_sort (sortBy_compare lt key direction) h1 copy)"


section \<open>The relational schema of \<^verbatim>\<open>src/01_init_database.sql\<close>\<close>

subsection \<open>Values, column types and constraints\<close>

text \<open>
  A cell holds a value or SQL's \<^verbatim>\<open>NULL\<close> (\<open>None\<close>). A \<^verbatim>\<open>DECIMAL(p,s)\<close> value is
  its unscaled integer (the number times \<open>10 ^ s\<close>); timestamps are microseconds and
  dates are days since the epoch; JSON documents and network addresses are kept as
  their text. Values arrive with the type of their column: the implicit casts of
  literals are not modelled.
\<close>

type_synonym uuid = "128 word"

datatype val =
    VInt int
  | VStr string
  | VBool bool
  | VUuid uuid
  | VTime int
  | VDate int
  | VNum int
  | VJson string
  | VInet string
  | VArr "string list"

type_synonym cell = "val option"

text \<open>
  A row lists its cells by column name, in the table's column order. Reading a column
  that a row does not have gives \<^verbatim>\<open>NULL\<close>.
\<close>

type_synonym row = "(string \<times> cell) list"

definition cell :: "row \<Rightarrow> string \<Rightarrow> cell" where
  "cell r c = (case map_of r c of None \<Rightarrow> None | Some v \<Rightarrow> v)"

datatype coltype =
    SERIAL
  | INTEGER
  | BIGINT
  | UUID
  | VARCHAR nat
  | TEXT
  | BOOLEAN
  | TIMESTAMP
  | DATE
  | DECIMAL nat nat
  | JSONB
  | INET
  | TEXT_ARRAY

datatype default_expr =
    Literal val
  | uuid_generate_v4
  | CURRENT_TIMESTAMP
  | CURRENT_DATE
  | nextval

datatype col_constraint =
    PRIMARY_KEY
  | UNIQUE
  | NOT_NULL
  | DEFAULT default_expr
  | REFERENCES string string

type_synonym column = "string \<times> coltype \<times> col_constraint list"

subsection \<open>The tables\<close>

text \<open>\<^verbatim>\<open>CREATE TABLE IF NOT EXISTS audit_logs\<close>\<close>

definition audit_logs_columns :: "column list" where
  "audit_logs_columns =
    [(''id'', SERIAL, [PRIMARY_KEY]),
     (''uuid'', UUID, [DEFAULT uuid_generate_v4, UNIQUE]),
     (''entity_type'', VARCHAR 100, [NOT_NULL]),
     (''entity_id'', UUID, [NOT_NULL]),
     (''action'', VARCHAR 50, [NOT_NULL]),
     (''old_values'', JSONB, []),
     (''new_values'', JSONB, []),
     (''user_id'', UUID, []),
     (''tenant_id'', UUID, [NOT_NULL]),
     (''ip_address'', INET, []),
     (''user_agent'', TEXT, []),
     (''created_at'', TIMESTAMP, [DEFAULT CURRENT_TIMESTAMP]),
     (''created_by'', VARCHAR 100, []),
     (''updated_at'', TIMESTAMP, [DEFAULT CURRENT_TIMESTAMP]),
     (''updated_by'', VARCHAR 100, []),
     (''is_active'', BOOLEAN, [DEFAULT (Literal (VBool True))])]"

text \<open>\<^verbatim>\<open>CREATE TABLE IF NOT EXISTS tenants\<close>\<close>

definition tenants_columns :: "column list" where
  "tenants_columns =
    [(''id'', SERIAL, [PRIMARY_KEY]),
     (''uuid'', UUID, [DEFAULT uuid_generate_v4, UNIQUE]),
     (''name'', VARCHAR 255, [NOT_NULL]),
     (''slug'', VARCHAR 100, [UNIQUE, NOT_NULL]),
     (''domain'', VARCHAR 255, []),
     (''settings'', JSONB, [DEFAULT (Literal (VJson ''{}''))]),
     (''subscription_plan'', VARCHAR 50, [DEFAULT (Literal (VStr ''basic''))]),
     (''subscription_status'', VARCHAR 50, [DEFAULT (Literal (VStr ''active''))]),
     (''created_at'', TIMESTAMP, [DEFAULT CURRENT_TIMESTAMP]),
     (''updated_at'', TIMESTAMP, [DEFAULT CURRENT_TIMESTAMP]),
     (''created_by'', VARCHAR 100, []),
     (''updated_by'', VARCHAR 100, []),
     (''is_active'', BOOLEAN, [DEFAULT (Literal (VBool True))])]"

text \<open>\<^verbatim>\<open>CREATE TABLE IF NOT EXISTS auth.users\<close>\<close>

definition auth_users_columns :: "column list" where
  "auth_users_columns =
    [(''id'', SERIAL, [PRIMARY_KEY]),
     (''uuid'', UUID, [DEFAULT uuid_generate_v4, UNIQUE]),
     (''email'', VARCHAR 255, [UNIQUE, NOT_NULL]),
     (''password_hash'', VARCHAR 255, [NOT_NULL]),
     (''first_name'', VARCHAR 100, []),
     (''last_name'', VARCHAR 100, []),
     (''phone'', VARCHAR 20, []),
     (''language'', VARCHAR 10, [DEFAULT (Literal (VStr ''en''))]),
     (''timezone'', VARCHAR 50, [DEFAULT (Literal (VStr ''UTC''))]),
     (''last_login'', TIMESTAMP, []),
     (''email_verified'', BOOLEAN, [DEFAULT (Literal (VBool False))]),
     (''phone_verified'', BOOLEAN, [DEFAULT (Literal (VBool False))]),
     (''is_active'', BOOLEAN, [DEFAULT (Literal (VBool True))]),
     (''tenant_id'', UUID, [NOT_NULL, REFERENCES ''tenants'' ''uuid'']),
     (''created_at'', TIMESTAMP, [DEFAULT CURRENT_TIMESTAMP]),
     (''updated_at'', TIMESTAMP, [DEFAULT CURRENT_TIMESTAMP]),
     (''created_by'', VARCHAR 100, []),
     (''updated_by'', VARCHAR 100, [])]"

text \<open>\<^verbatim>\<open>CREATE TABLE IF NOT EXISTS auth.user_roles\<close>\<close>

definition auth_user_roles_columns :: "column list" where
  "auth_user_roles_columns =
    [(''id'', SERIAL, [PRIMARY_KEY]),
     (''user_id'', UUID, [NOT_NULL, REFERENCES ''auth.users'' ''uuid'']),
     (''role'', VARCHAR 50, [NOT_NULL]),
     (''granted_by'', UUID, [REFERENCES ''auth.users'' ''uuid'']),
     (''granted_at'', TIMESTAMP, [DEFAULT CURRENT_TIMESTAMP]),
     (''tenant_id'', UUID, [NOT_NULL, REFERENCES ''tenants'' ''uuid''])]"

text \<open>\<^verbatim>\<open>CREATE TABLE IF NOT EXISTS clients.companies\<close>\<close>

definition clients_companies_columns :: "column list" where
  "clients_companies_columns =
    [(''id'', SERIAL, [PRIMARY_KEY]),
     (''uuid'', UUID, [DEFAULT uuid_generate_v4, UNIQUE]),
     (''name'', VARCHAR 255, [NOT_NULL]),
     (''legal_name'', VARCHAR 255, []),
     (''industry'', VARCHAR 100, []),
     (''company_type'', VARCHAR 50, []),
     (''website'', VARCHAR 255, []),
     (''phone'', VARCHAR 20, []),
     (''email'', VARCHAR 255, []),
     (''tax_id'', VARCHAR 100, []),
     (''vat_number'', VARCHAR 100, []),
     (''registration_number'', VARCHAR 100, []),
     (''founded_year'', INTEGER, []),
     (''employee_count'', INTEGER, []),
     (''annual_revenue'', DECIMAL 15 2, []),
     (''currency'', VARCHAR 3, [DEFAULT (Literal (VStr ''USD''))]),
     (''status'', VARCHAR 50, [DEFAULT (Literal (VStr ''active''))]),
     (''source'', VARCHAR 100, []),
     (''assigned_to'', UUID, [REFERENCES ''auth.users'' ''uuid'']),
     (''tenant_id'', UUID, [NOT_NULL, REFERENCES ''tenants'' ''uuid'']),
     (''created_at'', TIMESTAMP, [DEFAULT CURRENT_TIMESTAMP]),
     (''updated_at'', TIMESTAMP, [DEFAULT CURRENT_TIMESTAMP]),
     (''created_by'', VARCHAR 100, []),
     (''updated_by'', VARCHAR 100, []),
     (''is_active'', BOOLEAN, [DEFAULT (Literal (VBool True))])]"

text \<open>\<^verbatim>\<open>CREATE TABLE IF NOT EXISTS clients.company_addresses\<close>\<close>

definition clients_company_addresses_columns :: "column list" where
  "clients_company_addresses_columns =
    [(''id'', SERIAL, [PRIMARY_KEY]),
     (''uuid'', UUID, [DEFAULT uuid_generate_v4, UNIQUE]),
     (''company_id'', UUID, [NOT_NULL, REFERENCES ''clients.companies'' ''uuid'']),
     (''address_type'', VARCHAR 50, [DEFAULT (Literal (VStr ''business''))]),
     (''street_address'', TEXT, []),
     (''city'', VARCHAR 100, []),
     (''state_province'', VARCHAR 100, []),
     (''postal_code'', VARCHAR 20, []),
     (''country'', VARCHAR 100, []),
     (''is_primary'', BOOLEAN, [DEFAULT (Literal (VBool False))]),
     (''tenant_id'', UUID, [NOT_NULL, REFERENCES ''tenants'' ''uuid'']),
     (''created_at'', TIMESTAMP, [DEFAULT CURRENT_TIMESTAMP]),
     (''updated_at'', TIMESTAMP, [DEFAULT CURRENT_TIMESTAMP]),
     (''created_by'', VARCHAR 100, []),
     (''updated_by'', VARCHAR 100, []),
     (''is_active'', BOOLEAN, [DEFAULT (Literal (VBool True))])]"

text \<open>\<^verbatim>\<open>CREATE TABLE IF NOT EXISTS clients.contacts\<close>\<close>

definition clients_contacts_columns :: "column list" where
  "clients_contacts_columns =
    [(''id'', SERIAL, [PRIMARY_KEY]),
     (''uuid'', UUID, [DEFAULT uuid_generate_v4, UNIQUE]),
     (''company_id'', UUID, [REFERENCES ''clients.companies'' ''uuid'']),
     (''first_name'', VARCHAR 100, [NOT_NULL]),
     (''last_name'', VARCHAR 100, [NOT_NULL]),
     (''title'', VARCHAR 100, []),
     (''department'', VARCHAR 100, []),
     (''email'', VARCHAR 255, []),
     (''phone'', VARCHAR 20, []),
     (''mobile'', VARCHAR 20, []),
     (''linkedin_url'', VARCHAR 255, []),
     (''preferred_language'', VARCHAR 10, [DEFAULT (Literal (VStr ''en''))]),
     (''preferred_contact_method'', VARCHAR 50, [DEFAULT (Literal (VStr ''email''))]),
     (''is_primary'', BOOLEAN, [DEFAULT (Literal (VBool False))]),
     (''notes'', TEXT, []),
     (''tenant_id'', UUID, [NOT_NULL, REFERENCES ''tenants'' ''uuid'']),
     (''created_at'', TIMESTAMP, [DEFAULT CURRENT_TIMESTAMP]),
     (''updated_at'', TIMESTAMP, [DEFAULT CURRENT_TIMESTAMP]),
     (''created_by'', VARCHAR 100, []),
     (''updated_by'', VARCHAR 100, []),
     (''is_active'', BOOLEAN, [DEFAULT (Literal (VBool True))])]"

text \<open>\<^verbatim>\<open>CREATE TABLE IF NOT EXISTS deals.deals\<close>\<close>

definition deals_deals_columns :: "column list" where
  "deals_deals_columns =
    [(''id'', SERIAL, [PRIMARY_KEY]),
     (''uuid'', UUID, [DEFAULT uuid_generate_v4, UNIQUE]),
     (''title'', VARCHAR 255, [NOT_NULL]),
     (''description'', TEXT, []),
     (''company_id'', UUID, [REFERENCES ''clients.companies'' ''uuid'']),
     (''contact_id'', UUID, [REFERENCES ''clients.contacts'' ''uuid'']),
     (''stage'', VARCHAR 50, [DEFAULT (Literal (VStr ''lead''))]),
     (''value'', DECIMAL 15 2, []),
     (''currency'', VARCHAR 3, [DEFAULT (Literal (VStr ''USD''))]),
     (''probability'', INTEGER, [DEFAULT (Literal (VInt 0))]),
     (''expected_close_date'', DATE, []),
     (''actual_close_date'', DATE, []),
     (''source'', VARCHAR 100, []),
     (''assigned_to'', UUID, [REFERENCES ''auth.users'' ''uuid'']),
     (''status'', VARCHAR 50, [DEFAULT (Literal (VStr ''open''))]),
     (''priority'', VARCHAR 20, [DEFAULT (Literal (VStr ''medium''))]),
     (''tags'', TEXT_ARRAY, []),
     (''custom_fields'', JSONB, [DEFAULT (Literal (VJson ''{}''))]),
     (''tenant_id'', UUID, [NOT_NULL, REFERENCES ''tenants'' ''uuid'']),
     (''created_at'', TIMESTAMP, [DEFAULT CURRENT_TIMESTAMP]),
     (''updated_at'', TIMESTAMP, [DEFAULT CURRENT_TIMESTAMP]),
     (''created_by'', VARCHAR 100, []),
     (''updated_by'', VARCHAR 100, []),
     (''is_active'', BOOLEAN, [DEFAULT (Literal (VBool True))])]"

text \<open>\<^verbatim>\<open>CREATE TABLE IF NOT EXISTS deals.deal_activities\<close>\<close>

definition deals_deal_activities_columns :: "column list" where
  "deals_deal_activities_columns =
    [(''id'', SERIAL, [PRIMARY_KEY]),
     (''uuid'', UUID, [DEFAULT uuid_generate_v4, UNIQUE]),
     (''deal_id'', UUID, [NOT_NULL, REFERENCES ''deals.deals'' ''uuid'']),
     (''activity_type'', VARCHAR 50, [NOT_NULL]),
     (''subject'', VARCHAR 255, []),
     (''description'', TEXT, []),
     (''activity_date'', TIMESTAMP, [DEFAULT CURRENT_TIMESTAMP]),
     (''duration_minutes'', INTEGER, []),
     (''outcome'', VARCHAR 100, []),
     (''next_action'', TEXT, []),
     (''tenant_id'', UUID, [NOT_NULL, REFERENCES ''tenants'' ''uuid'']),
     (''created_at'', TIMESTAMP, [DEFAULT CURRENT_TIMESTAMP]),
     (''updated_at'', TIMESTAMP, [DEFAULT CURRENT_TIMESTAMP]),
     (''created_by'', VARCHAR 100, []),
     (''updated_by'', VARCHAR 100, []),
     (''is_active'', BOOLEAN, [DEFAULT (Literal (VBool True))])]"

text \<open>\<^verbatim>\<open>CREATE TABLE IF NOT EXISTS orders.orders\<close>\<close>

definition orders_orders_columns :: "column list" where
  "orders_orders_columns =
    [(''id'', SERIAL, [PRIMARY_KEY]),
     (''uuid'', UUID, [DEFAULT uuid_generate_v4, UNIQUE]),
     (''order_number'', VARCHAR 100, [UNIQUE, NOT_NULL]),
     (''deal_id'', UUID, [REFERENCES ''deals.deals'' ''uuid'']),
     (''company_id'', UUID, [NOT_NULL, REFERENCES ''clients.companies'' ''uuid'']),
     (''contact_id'', UUID, [REFERENCES ''clients.contacts'' ''uuid'']),
     (''status'', VARCHAR 50, [DEFAULT (Literal (VStr ''pending''))]),
     (''order_date'', DATE, [DEFAULT CURRENT_DATE]),
     (''required_date'', DATE, []),
     (''shipped_date'', DATE, []),
     (''delivery_date'', DATE, []),
     (''total_amount'', DECIMAL 15 2, []),
     (''currency'', VARCHAR 3, [DEFAULT (Literal (VStr ''USD''))]),
     (''payment_terms'', VARCHAR 100, []),
     (''payment_status'', VARCHAR 50, [DEFAULT (Literal (VStr ''pending''))]),
     (''shipping_method'', VARCHAR 100, []),
     (''shipping_address'', JSONB, []),
     (''billing_address'', JSONB, []),
     (''notes'', TEXT, []),
     (''custom_fields'', JSONB, [DEFAULT (Literal (VJson ''{}''))]),
     (''tenant_id'', UUID, [NOT_NULL, REFERENCES ''tenants'' ''uuid'']),
     (''created_at'', TIMESTAMP, [DEFAULT CURRENT_TIMESTAMP]),
     (''updated_at'', TIMESTAMP, [DEFAULT CURRENT_TIMESTAMP]),
     (''created_by'', VARCHAR 100, []),
     (''updated_by'', VARCHAR 100, []),
     (''is_active'', BOOLEAN, [DEFAULT (Literal (VBool True))])]"

text \<open>\<^verbatim>\<open>CREATE TABLE IF NOT EXISTS orders.order_items\<close>\<close>

definition orders_order_items_columns :: "column list" where
  "orders_order_items_columns =
    [(''id'', SERIAL, [PRIMARY_KEY]),
     (''uuid'', UUID, [DEFAULT uuid_generate_v4, UNIQUE]),
     (''order_id'', UUID, [NOT_NULL, REFERENCES ''orders.orders'' ''uuid'']),
     (''product_code'', VARCHAR 100, []),
     (''product_name'', VARCHAR 255, [NOT_NULL]),
     (''description'', TEXT, []),
     (''quantity'', DECIMAL 10 3, [NOT_NULL]),
     (''unit_price'', DECIMAL 10 2, [NOT_NULL]),
     (''total_price'', DECIMAL 15 2, [NOT_NULL]),
     (''unit_of_measure'', VARCHAR 20, []),
     (''weight'', DECIMAL 10 3, []),
     (''dimensions'', JSONB, []),
     (''tenant_id'', UUID, [NOT_NULL, REFERENCES ''tenants'' ''uuid'']),
     (''created_at'', TIMESTAMP, [DEFAULT CURRENT_TIMESTAMP]),
     (''updated_at'', TIMESTAMP, [DEFAULT CURRENT_TIMESTAMP]),
     (''created_by'', VARCHAR 100, []),
     (''updated_by'', VARCHAR 100, []),
     (''is_active'', BOOLEAN, [DEFAULT (Literal (VBool True))])]"

text \<open>\<^verbatim>\<open>CREATE TABLE IF NOT EXISTS documents.documents\<close>\<close>

definition documents_documents_columns :: "column list" where
  "documents_documents_columns =
    [(''id'', SERIAL, [PRIMARY_KEY]),
     (''uuid'', UUID, [DEFAULT uuid_generate_v4, UNIQUE]),
     (''filename'', VARCHAR 255, [NOT_NULL]),
     (''original_filename'', VARCHAR 255, [NOT_NULL]),
     (''file_path'', VARCHAR 500, []),
     (''file_size'', BIGINT, []),
     (''mime_type'', VARCHAR 100, []),
     (''file_hash'', VARCHAR 64, []),
     (''document_type'', VARCHAR 50, []),
     (''category'', VARCHAR 100, []),
     (''entity_type'', VARCHAR 50, []),
     (''entity_id'', UUID, []),
     (''title'', VARCHAR 255, []),
     (''description'', TEXT, []),
     (''tags'', TEXT_ARRAY, []),
     (''is_public'', BOOLEAN, [DEFAULT (Literal (VBool False))]),
     (''access_level'', VARCHAR 20, [DEFAULT (Literal (VStr ''private''))]),
     (''version'', INTEGER, [DEFAULT (Literal (VInt 1))]),
     (''parent_document_id'', UUID, [REFERENCES ''documents.documents'' ''uuid'']),
     (''tenant_id'', UUID, [NOT_NULL, REFERENCES ''tenants'' ''uuid'']),
     (''created_at'', TIMESTAMP, [DEFAULT CURRENT_TIMESTAMP]),
     (''updated_at'', TIMESTAMP, [DEFAULT CURRENT_TIMESTAMP]),
     (''created_by'', VARCHAR 100, []),
     (''updated_by'', VARCHAR 100, []),
     (''is_active'', BOOLEAN, [DEFAULT (Literal (VBool True))])]"

definition schema :: "(string \<times> column list) list" where
  "schema =
    [(''audit_logs'', audit_logs_columns),
     (''tenants'', tenants_columns),
     (''auth.users'', auth_users_columns),
     (''auth.user_roles'', auth_user_roles_columns),
     (''clients.companies'', clients_companies_columns),
     (''clients.company_addresses'', clients_company_addresses_columns),
     (''clients.contacts'', clients_contacts_columns),
     (''deals.deals'', deals_deals_columns),
     (''deals.deal_activities'', deals_deal_activities_columns),
     (''orders.orders'', orders_orders_columns),
     (''orders.order_items'', orders_order_items_columns),
     (''documents.documents'', documents_documents_columns)]"

subsection \<open>The triggers\<close>

definition triggers :: "(string \<times> string) list" where
  "triggers =
    [(''update_tenants_updated_at'', ''tenants''),
     (''update_users_updated_at'', ''auth.users''),
     (''update_companies_updated_at'', ''clients.companies''),
     (''update_company_addresses_updated_at'', ''clients.company_addresses''),
     (''update_contacts_updated_at'', ''clients.contacts''),
     (''update_deals_updated_at'', ''deals.deals''),
     (''update_deal_activities_updated_at'', ''deals.deal_activities''),
     (''update_orders_updated_at'', ''orders.orders''),
     (''update_order_items_updated_at'', ''orders.order_items''),
     (''update_documents_updated_at'', ''documents.documents''),
     (''update_audit_logs_updated_at'', ''audit_logs'')]"


text \<open>
  \<^verbatim>\<open>
  CREATE OR REPLACE FUNCTION update_updated_at_column() RETURNS TRIGGER AS $$
  BEGIN
      NEW.updated_at = CURRENT_TIMESTAMP;
      RETURN NEW;
  END;
  \<close>
\<close>

definition update_updated_at_column :: "int \<Rightarrow> row \<Rightarrow> row" where
  "update_updated_at_column current_timestamp NEW =
     map (\<lambda>(c, v). if c = ''updated_at'' then (c, Some (VTime current_timestamp)) else (c, v)) NEW"

subsection \<open>What a column definition means\<close>

text \<open>
  \<^verbatim>\<open>SERIAL\<close> is an integer column that is \<^verbatim>\<open>NOT NULL\<close> and defaults to the next
  value of the column's own sequence; \<^verbatim>\<open>PRIMARY KEY\<close> is \<^verbatim>\<open>UNIQUE NOT NULL\<close>.
\<close>

fun col_not_null :: "column \<Rightarrow> bool" where
  "col_not_null (c, ty, cs) = (ty = SERIAL \<or> PRIMARY_KEY \<in> set cs \<or> NOT_NULL \<in> set cs)"

fun col_unique :: "column \<Rightarrow> bool" where
  "col_unique (c, ty, cs) = (PRIMARY_KEY \<in> set cs \<or> UNIQUE \<in> set cs)"

fun defaults_of :: "col_constraint list \<Rightarrow> default_expr list" where
  "defaults_of [] = []"
| "defaults_of (DEFAULT d # cs) = d # defaults_of cs"
| "defaults_of (_ # cs) = defaults_of cs"

fun col_default :: "column \<Rightarrow> default_expr option" where
  "col_default (c, ty, cs) =
     (if ty = SERIAL then Some nextval
      else (case defaults_of cs of [] \<Rightarrow> None | d # _ \<Rightarrow> Some d))"

fun references_of :: "col_constraint list \<Rightarrow> (string \<times> string) list" where
  "references_of [] = []"
| "references_of (REFERENCES t c # cs) = (t, c) # references_of cs"
| "references_of (_ # cs) = references_of cs"

text \<open>
  The foreign keys of the schema: referencing table and column, referenced table and
  column.
\<close>

definition fkeys_of :: "(string \<times> column list) list \<Rightarrow> (string \<times> string \<times> string \<times> string) list" where
  "fkeys_of sch =
     concat (map (\<lambda>(t, cols).
       concat (map (\<lambda>(c, ty, cs). map (\<lambda>(t2, c2). (t, c, t2, c2)) (references_of cs)) cols))
       sch)"

definition fkeys :: "(string \<times> string \<times> string \<times> string) list" where
  "fkeys = fkeys_of schema"

subsection \<open>The state and the statements\<close>

text \<open>
  A database holds the rows of every table, in insertion order, and the last value each
  sequence gave out (the sequence of a \<^verbatim>\<open>SERIAL\<close> column is named by its table and
  column). The script creates the tables empty. What a statement takes from outside is
  its environment: the current time and the random UUIDs that \<^verbatim>\<open>uuid_generate_v4()\<close>
  draws, one for each row of the statement and column.
\<close>

record db =
  tables :: "string \<Rightarrow> row list"
  seqs :: "string \<times> string \<Rightarrow> nat"

definition init_db :: db where
  "init_db = \<lparr>tables = (\<lambda>t. []), seqs = (\<lambda>s. 0)\<rparr>"

record env =
  now :: int
  random_uuid :: "nat \<Rightarrow> string \<Rightarrow> uuid"

text \<open>
  The statements: \<^verbatim>\<open>INSERT INTO t (columns) VALUES (...), (...)\<close>;
  \<^verbatim>\<open>UPDATE t SET c = e, ... WHERE w\<close>, each expression a function of the row it
  updates; \<^verbatim>\<open>DELETE FROM t WHERE w\<close>. A condition selects the rows on which it
  is true. \<^verbatim>\<open>ON CONFLICT\<close> clauses are not modelled.
\<close>

datatype stmt =
    INSERT string "string list" "cell list list"
  | UPDATE string "(string \<times> (row \<Rightarrow> cell)) list" "row \<Rightarrow> bool"
  | DELETE string "row \<Rightarrow> bool"

datatype error =
    SyntaxError
  | UndefinedTable string
  | UndefinedColumn string string
  | DuplicateColumn string
  | DatatypeMismatch string string
  | StringDataRightTruncation string string
  | NumericValueOutOfRange string string
  | NotNullViolation string string
  | UniqueViolation string string
  | ForeignKeyViolation string string string

subsection \<open>Checking one row\<close>

text \<open>
  A value stored in a column must have the column's type. An integer must fit its width,
  a decimal its precision, and a \<^verbatim>\<open>VARCHAR(n)\<close> longer than \<open>n\<close> characters is an
  error unless the excess is all spaces, which are then cut off.
\<close>

definition coerce :: "string \<Rightarrow> string \<Rightarrow> coltype \<Rightarrow> val \<Rightarrow> error + val" where
  "coerce t c ty v =
     (case (ty, v) of
        (SERIAL, VInt i) \<Rightarrow>
          if - 2147483648 \<le> i \<and> i \<le> 2147483647 then Inr (VInt i)
          else Inl (NumericValueOutOfRange t c)
      | (INTEGER, VInt i) \<Rightarrow>
          if - 2147483648 \<le> i \<and> i \<le> 2147483647 then Inr (VInt i)
          else Inl (NumericValueOutOfRange t c)
      | (BIGINT, VInt i) \<Rightarrow>
          if - 9223372036854775808 \<le> i \<and> i \<le> 9223372036854775807 then Inr (VInt i)
          else Inl (NumericValueOutOfRange t c)
      | (UUID, VUuid u) \<Rightarrow> Inr (VUuid u)
      | (VARCHAR n, VStr s) \<Rightarrow>
          if length s \<le> n then Inr (VStr s)
          else if list_all (\<lambda>ch. ch = CHR '' '') (drop n s) then Inr (VStr (take n s))
          else Inl (StringDataRightTruncation t c)
      | (TEXT, VStr s) \<Rightarrow> Inr (VStr s)
      | (BOOLEAN, VBool b) \<Rightarrow> Inr (VBool b)
      | (TIMESTAMP, VTime u) \<Rightarrow> Inr (VTime u)
      | (DATE, VDate d) \<Rightarrow> Inr (VDate d)
      | (DECIMAL p s, VNum m) \<Rightarrow>
          if \<bar>m\<bar> < 10 ^ p then Inr (VNum m) else Inl (NumericValueOutOfRange t c)
      | (JSONB, VJson j) \<Rightarrow> Inr (VJson j)
      | (INET, VInet a) \<Rightarrow> Inr (VInet a)
      | (TEXT_ARRAY, VArr xs) \<Rightarrow> Inr (VArr xs)
      | _ \<Rightarrow> Inl (DatatypeMismatch t c))"

fun coerce_cell :: "string \<Rightarrow> string \<Rightarrow> coltype \<Rightarrow> cell \<Rightarrow> error + cell" where
  "coerce_cell t c ty None = Inr None"
| "coerce_cell t c ty (Some v) =
     (case coerce t c ty v of Inl err \<Rightarrow> Inl err | Inr v' \<Rightarrow> Inr (Some v'))"

text \<open>The cells of a row, column after column; the first that fails gives the error.\<close>

fun coerce_row :: "string \<Rightarrow> column list \<Rightarrow> row \<Rightarrow> error + row" where
  "coerce_row t [] r = Inr []"
| "coerce_row t ((c, ty, cs) # cols) r =
     (case coerce_cell t c ty (cell r c) of
        Inl err \<Rightarrow> Inl err
      | Inr x \<Rightarrow>
          (case coerce_row t cols r of
             Inl err \<Rightarrow> Inl err
           | Inr r' \<Rightarrow> Inr ((c, x) # r')))"

text \<open>The first column, in the table's order, that breaks \<^verbatim>\<open>NOT NULL\<close>.\<close>

definition null_violation :: "string \<Rightarrow> column list \<Rightarrow> row \<Rightarrow> error option" where
  "null_violation t cols r =
     (case filter (\<lambda>col. col_not_null col \<and> cell r (fst col) = None) cols of
        [] \<Rightarrow> None
      | col # _ \<Rightarrow> Some (NotNullViolation t (fst col)))"

text \<open>
  The first column that breaks \<^verbatim>\<open>UNIQUE\<close> against the other rows of the table. Two
  \<^verbatim>\<open>NULL\<close>s do not conflict.
\<close>

definition unique_violation :: "string \<Rightarrow> column list \<Rightarrow> row list \<Rightarrow> row \<Rightarrow> error option" where
  "unique_violation t cols others r =
     (case filter (\<lambda>col. col_unique col \<and> cell r (fst col) \<noteq> None
                        \<and> cell r (fst col) \<in> set (map (\<lambda>other. cell other (fst col)) others)) cols of
        [] \<Rightarrow> None
      | col # _ \<Rightarrow> Some (UniqueViolation t (fst col)))"

definition check_row :: "string \<Rightarrow> column list \<Rightarrow> row list \<Rightarrow> row \<Rightarrow> error + row" where
  "check_row t cols others r =
     (case coerce_row t cols r of
        Inl e \<Rightarrow> Inl e
      | Inr r' \<Rightarrow>
          (case null_violation t cols r' of
             Some e \<Rightarrow> Inl e
           | None \<Rightarrow>
               (case unique_violation t cols others r' of
                  Some e \<Rightarrow> Inl e
                | None \<Rightarrow> Inr r')))"

text \<open>The columns a statement names must exist, each named once.\<close>

definition bad_target :: "string \<Rightarrow> column list \<Rightarrow> string list \<Rightarrow> error option" where
  "bad_target t cols names =
     (case filter (\<lambda>c. c \<notin> set (map fst cols)) names of
        c # _ \<Rightarrow> Some (UndefinedColumn t c)
      | [] \<Rightarrow> if distinct names then None else Some (DuplicateColumn t))"

subsection \<open>\<^verbatim>\<open>INSERT\<close>\<close>

definition default_value ::
  "env \<Rightarrow> nat \<Rightarrow> (string \<times> string \<Rightarrow> nat) \<Rightarrow> string \<Rightarrow> string \<Rightarrow> default_expr \<Rightarrow> cell" where
  "default_value e i sq t c d =
     (case d of
        Literal v \<Rightarrow> Some v
      | uuid_generate_v4 \<Rightarrow> Some (VUuid (random_uuid e i c))
      | CURRENT_TIMESTAMP \<Rightarrow> Some (VTime (now e))
      | CURRENT_DATE \<Rightarrow> Some (VDate (now e div 86400000000))
      | nextval \<Rightarrow> Some (VInt (int (sq (t, c)) + 1)))"

text \<open>A column the statement does not name takes its default, \<^verbatim>\<open>NULL\<close> without one.\<close>

definition build_row ::
  "env \<Rightarrow> nat \<Rightarrow> (string \<times> string \<Rightarrow> nat) \<Rightarrow> string \<Rightarrow> column list \<Rightarrow> (string \<times> cell) list \<Rightarrow> row" where
  "build_row e i sq t cols given =
     map (\<lambda>col. (fst col,
            case map_of given (fst col) of
              Some v \<Rightarrow> v
            | None \<Rightarrow>
                (case col_default col of
                   None \<Rightarrow> None
                 | Some d \<Rightarrow> default_value e i sq t (fst col) d)))
       cols"

text \<open>Each \<^verbatim>\<open>nextval\<close> the row evaluated moved its sequence on, whether the row is kept or not.\<close>

definition advance_seqs ::
  "string \<Rightarrow> column list \<Rightarrow> (string \<times> cell) list \<Rightarrow> (string \<times> string \<Rightarrow> nat) \<Rightarrow> (string \<times> string \<Rightarrow> nat)" where
  "advance_seqs t cols given sq =
     foldl (\<lambda>s col. if fst col \<notin> set (map fst given) \<and> col_default col = Some nextval
                      then s((t, fst col) := s (t, fst col) + 1) else s)
       sq cols"

text \<open>
  The rows of one \<^verbatim>\<open>INSERT\<close> are checked and added one after the other, each against
  the table as it is by then. The result is the error of the first row that fails, the
  rows added, and the sequences.
\<close>

fun insert_rows ::
  "env \<Rightarrow> string \<Rightarrow> column list \<Rightarrow> row list \<Rightarrow> nat \<Rightarrow> (string \<times> cell) list list
     \<Rightarrow> row list \<Rightarrow> (string \<times> string \<Rightarrow> nat)
     \<Rightarrow> error option \<times> row list \<times> (string \<times> string \<Rightarrow> nat)" where
  "insert_rows e t cols old i [] news sq = (None, news, sq)"
| "insert_rows e t cols old i (given # rest) news sq =
     (case check_row t cols (old @ news) (build_row e i sq t cols given) of
        Inl err \<Rightarrow> (Some err, news, advance_seqs t cols given sq)
      | Inr r \<Rightarrow> insert_rows e t cols old (Suc i) rest (news @ [r]) (advance_seqs t cols given sq))"

subsection \<open>\<^verbatim>\<open>UPDATE\<close>\<close>

definition assign :: "(string \<times> (row \<Rightarrow> cell)) list \<Rightarrow> row \<Rightarrow> row" where
  "assign sets r = map (\<lambda>(c, v). (c, case map_of sets c of Some expr \<Rightarrow> expr r | None \<Rightarrow> v)) r"

text \<open>
  \<^verbatim>\<open>BEFORE UPDATE ... FOR EACH ROW EXECUTE FUNCTION update_updated_at_column()\<close>: every
  trigger on the table runs on the new row before it is checked. The function fails on a
  table that has no \<^verbatim>\<open>updated_at\<close> column.
\<close>

fun fire_before_update :: "(string \<times> string) list \<Rightarrow> string \<Rightarrow> column list \<Rightarrow> int \<Rightarrow> row \<Rightarrow> error + row" where
  "fire_before_update [] t cols ts r = Inr r"
| "fire_before_update ((name, target) # trgs) t cols ts r =
     (if target = t then
        (if ''updated_at'' \<in> set (map fst cols)
         then fire_before_update trgs t cols ts (update_updated_at_column ts r)
         else Inl (UndefinedColumn t ''updated_at''))
      else fire_before_update trgs t cols ts r)"

text \<open>
  The rows of one \<^verbatim>\<open>UPDATE\<close> are replaced one after the other; a new row is checked
  against the table as it is by then, without the row it replaces. The result is the
  table and the new rows.
\<close>

fun update_rows ::
  "env \<Rightarrow> string \<Rightarrow> column list \<Rightarrow> (string \<times> (row \<Rightarrow> cell)) list \<Rightarrow> (row \<Rightarrow> bool)
     \<Rightarrow> row list \<Rightarrow> row list \<Rightarrow> row list \<Rightarrow> error + (row list \<times> row list)" where
  "update_rows e t cols sets w done news [] = Inr (done, news)"
| "update_rows e t cols sets w done news (r # rest) =
     (if w r then
        (case fire_before_update triggers t cols (now e) (assign sets r) of
           Inl err \<Rightarrow> Inl err
         | Inr r1 \<Rightarrow>
             (case check_row t cols (done @ rest) r1 of
                Inl err \<Rightarrow> Inl err
              | Inr r' \<Rightarrow> update_rows e t cols sets w (done @ [r']) (news @ [r']) rest))
      else update_rows e t cols sets w (done @ [r]) news rest)"

subsection \<open>Foreign keys\<close>

text \<open>
  Foreign keys are checked when the statement has run, on the tables as it leaves them.
  A new row's reference must be \<^verbatim>\<open>NULL\<close> or the key of a row of the referenced
  table. A key that an updated or deleted row had, and that no row has any more, must
  not be referenced (\<^verbatim>\<open>NO ACTION\<close>, the default).
\<close>

definition key_present :: "(string \<Rightarrow> row list) \<Rightarrow> string \<Rightarrow> string \<Rightarrow> cell \<Rightarrow> bool" where
  "key_present T t c k = (k \<in> set (map (\<lambda>r. cell r c) (T t)))"

definition dangling :: "(string \<Rightarrow> row list) \<Rightarrow> string \<times> string \<times> string \<times> string \<Rightarrow> row \<Rightarrow> bool" where
  "dangling T fk r =
     (case fk of (t1, c1, t2, c2) \<Rightarrow> cell r c1 \<noteq> None \<and> \<not> key_present T t2 c2 (cell r c1))"

definition orphaning :: "(string \<Rightarrow> row list) \<Rightarrow> string \<times> string \<times> string \<times> string \<Rightarrow> row \<Rightarrow> bool" where
  "orphaning T fk old =
     (case fk of (t1, c1, t2, c2) \<Rightarrow>
        cell old c2 \<noteq> None \<and> \<not> key_present T t2 c2 (cell old c2)
        \<and> key_present T t1 c1 (cell old c2))"

definition fk_error :: "string \<times> string \<times> string \<times> string \<Rightarrow> error" where
  "fk_error fk = (case fk of (t1, c1, t2, c2) \<Rightarrow> ForeignKeyViolation t1 c1 t2)"

definition outgoing_violation :: "(string \<Rightarrow> row list) \<Rightarrow> string \<Rightarrow> row list \<Rightarrow> error option" where
  "outgoing_violation T t news =
     (case filter (\<lambda>fk. fst fk = t \<and> list_ex (dangling T fk) news) fkeys of
        [] \<Rightarrow> None
      | fk # _ \<Rightarrow> Some (fk_error fk))"

definition incoming_violation :: "(string \<Rightarrow> row list) \<Rightarrow> string \<Rightarrow> row list \<Rightarrow> error option" where
  "incoming_violation T t olds =
     (case filter (\<lambda>fk. fst (snd (snd fk)) = t \<and> list_ex (orphaning T fk) olds) fkeys of
        [] \<Rightarrow> None
      | fk # _ \<Rightarrow> Some (fk_error fk))"

subsection \<open>Running a statement\<close>

text \<open>
  A statement that fails leaves every table as it was (but not the sequences). The
  result is the error, if any, and the database after the statement.
\<close>

fun exec :: "env \<Rightarrow> db \<Rightarrow> stmt \<Rightarrow> error option \<times> db" where
  "exec e d (INSERT t names rows) =
     (case map_of schema t of
        None \<Rightarrow> (Some (UndefinedTable t), d)
      | Some cols \<Rightarrow>
          (case bad_target t cols names of
             Some err \<Rightarrow> (Some err, d)
           | None \<Rightarrow>
               if list_ex (\<lambda>vals. length vals \<noteq> length names) rows then (Some SyntaxError, d)
               else
                 (case insert_rows e t cols (tables d t) 0 (map (zip names) rows) [] (seqs d) of
                    (Some err, news, sq) \<Rightarrow> (Some err, d\<lparr>seqs := sq\<rparr>)
                  | (None, news, sq) \<Rightarrow>
                      (let T = (tables d)(t := tables d t @ news)
                       in case outgoing_violation T t news of
                            Some err \<Rightarrow> (Some err, d\<lparr>seqs := sq\<rparr>)
                          | None \<Rightarrow> (None, \<lparr>tables = T, seqs = sq\<rparr>)))))"
| "exec e d (UPDATE t sets w) =
     (case map_of schema t of
        None \<Rightarrow> (Some (UndefinedTable t), d)
      | Some cols \<Rightarrow>
          (case bad_target t cols (map fst sets) of
             Some err \<Rightarrow> (Some err, d)
           | None \<Rightarrow>
               (case update_rows e t cols sets w [] [] (tables d t) of
                  Inl err \<Rightarrow> (Some err, d)
                | Inr (rows, news) \<Rightarrow>
                    (let T = (tables d)(t := rows)
                     in case outgoing_violation T t news of
                          Some err \<Rightarrow> (Some err, d)
                        | None \<Rightarrow>
                            (case incoming_violation T t (filter w (tables d t)) of
                               Some err \<Rightarrow> (Some err, d)
                             | None \<Rightarrow> (None, d\<lparr>tables := T\<rparr>))))))"
| "exec e d (DELETE t w) =
     (case map_of schema t of
        None \<Rightarrow> (Some (UndefinedTable t), d)
      | Some cols \<Rightarrow>
          (let T = (tables d)(t := filter (\<lambda>r. \<not> w r) (tables d t))
           in case incoming_violation T t (filter w (tables d t)) of
                Some err \<Rightarrow> (Some err, d)
              | None \<Rightarrow> (None, d\<lparr>tables := T\<rparr>)))"

text \<open>A session: statements run in order, each in its environment; a failed one is skipped.\<close>

fun run :: "db \<Rightarrow> (env \<times> stmt) list \<Rightarrow> db" where
  "run d [] = d"
| "run d ((e, s) # script) = run (snd (exec e d s)) script"


subsection \<open>What the constraints keep true\<close>

text \<open>
  A row conforms to its table when every cell has its column's type and no
  \<^verbatim>\<open>NOT NULL\<close> column is empty; a column is distinct when no two rows share a value
  other than \<^verbatim>\<open>NULL\<close> in it; a reference is kept when no row dangles.
\<close>

definition conforms :: "string \<Rightarrow> column list \<Rightarrow> row \<Rightarrow> bool" where
  "conforms t cols r = (coerce_row t cols r = Inr r \<and> null_violation t cols r = None)"

definition col_distinct :: "string \<Rightarrow> row list \<Rightarrow> bool" where
  "col_distinct c rows = distinct (filter (\<lambda>v. v \<noteq> None) (map (\<lambda>r. cell r c) rows))"

definition rows_unique :: "column list \<Rightarrow> row list \<Rightarrow> bool" where
  "rows_unique cols rows = list_all (\<lambda>col. \<not> col_unique col \<or> col_distinct (fst col) rows) cols"

definition fk_ok :: "(string \<Rightarrow> row list) \<Rightarrow> bool" where
  "fk_ok T = list_all (\<lambda>fk. list_all (\<lambda>r. \<not> dangling T fk r) (T (fst fk))) fkeys"

definition consistent :: "db \<Rightarrow> bool" where
  "consistent d =
     (list_all (\<lambda>(t, cols). list_all (conforms t cols) (tables d t) \<and> rows_unique cols (tables d t)) schema
      \<and> fk_ok (tables d))"


subsection \<open>Tenant-scoped tables and kinds of statement\<close>

text \<open>The tables that carry a \<^verbatim>\<open>tenant_id\<close> column: every table but \<^verbatim>\<open>tenants\<close>.\<close>

definition tenant_scoped :: "string list" where
  "tenant_scoped =
    [''auth.users'', ''auth.user_roles'', ''clients.companies'', ''clients.company_addresses'',
     ''clients.contacts'', ''deals.deals'', ''deals.deal_activities'', ''orders.orders'',
     ''orders.order_items'', ''documents.documents'', ''audit_logs'']"

text \<open>
  A statement assigns a column of a table when it is an \<^verbatim>\<open>UPDATE\<close> of that table
  with the column in its \<^verbatim>\<open>SET\<close> list. The survivors of a statement are the rows
  of a table that it does not delete.
\<close>

fun assigns :: "string \<Rightarrow> string \<Rightarrow> stmt \<Rightarrow> bool" where
  "assigns t c (INSERT t' names rows) = False"
| "assigns t c (UPDATE t' sets w) = (t' = t \<and> c \<in> set (map fst sets))"
| "assigns t c (DELETE t' w) = False"

fun survivors :: "string \<Rightarrow> stmt \<Rightarrow> row list \<Rightarrow> row list" where
  "survivors t (INSERT t' names vals) rows = rows"
| "survivors t (UPDATE t' sets w) rows = rows"
| "survivors t (DELETE t' w) rows = (if t' = t then filter (\<lambda>r. \<not> w r) rows else rows)"

text \<open>A statement that rewrites or removes audit rows.\<close>

fun rewrites_audit_logs :: "stmt \<Rightarrow> bool" where
  "rewrites_audit_logs (INSERT t names rows) = False"
| "rewrites_audit_logs (UPDATE t sets w) = (t = ''audit_logs'')"
| "rewrites_audit_logs (DELETE t w) = (t = ''audit_logs'')"

subsection \<open>A sample session\<close>

text \<open>
  A session modelled on \<^verbatim>\<open>src/02_seed_data.sql\<close>, with the columns that matter
  here: its two tenants, and two companies, a contact and a deal of the first tenant.
\<close>

definition dakahlia :: uuid where
  "dakahlia = 0xf47ac10b58cc4372a5670e02b2c3d479"

definition demo_export :: uuid where
  "demo_export = 0xa1b2c3d4e5f67890abcdef1234567890"

definition gulf_fresh :: uuid where
  "gulf_fresh = 0xc1a2b3c4d5e6f7890123456789abcdef"

definition saudi_agri :: uuid where
  "saudi_agri = 0xd2b3c4d5e6f7890123456789abcdef01"

definition al_rashid :: uuid where
  "al_rashid = 0xf1a2b3c4d5e678901234567890abcdef"

definition vegetables_deal :: uuid where
  "vegetables_deal = 0xd1a2b3c4e5f678901234567890abcdef"

definition seed_env :: env where
  "seed_env = \<lparr>now = 1755216000000000, random_uuid = (\<lambda>i c. 0)\<rparr>"

definition insert_dakahlia :: stmt where
  "insert_dakahlia = INSERT ''tenants''
     [''uuid'', ''name'', ''slug'', ''subscription_plan'']
     [[Some (VUuid dakahlia),
       Some (VStr ''Dakahlia Agricultural Development Co.''),
       Some (VStr ''dakahlia-agri''),
       Some (VStr ''enterprise'')]]"

definition insert_demo_export :: stmt where
  "insert_demo_export = INSERT ''tenants''
     [''uuid'', ''name'', ''slug'']
     [[Some (VUuid demo_export),
       Some (VStr ''Demo Export Company''),
       Some (VStr ''demo-export'')]]"

definition insert_companies :: stmt where
  "insert_companies = INSERT ''clients.companies''
     [''uuid'', ''name'', ''tenant_id'']
     [[Some (VUuid gulf_fresh),
       Some (VStr ''Gulf Fresh Foods LLC''),
       Some (VUuid dakahlia)],
      [Some (VUuid saudi_agri),
       Some (VStr ''Saudi Agricultural Imports''),
       Some (VUuid dakahlia)]]"

definition insert_contact :: stmt where
  "insert_contact = INSERT ''clients.contacts''
     [''uuid'', ''company_id'', ''first_name'', ''last_name'', ''is_primary'',
      ''tenant_id'']
     [[Some (VUuid al_rashid),
       Some (VUuid gulf_fresh),
       Some (VStr ''Mohammed''),
       Some (VStr ''Al-Rashid''),
       Some (VBool True),
       Some (VUuid dakahlia)]]"

definition insert_deal :: stmt where
  "insert_deal = INSERT ''deals.deals''
     [''uuid'', ''title'', ''company_id'', ''contact_id'', ''stage'', ''probability'',
      ''tenant_id'']
     [[Some (VUuid vegetables_deal),
       Some (VStr ''Fresh Vegetables Supply Contract''),
       Some (VUuid gulf_fresh),
       Some (VUuid al_rashid),
       Some (VStr ''negotiation''),
       Some (VInt 75),
       Some (VUuid dakahlia)]]"

definition seed_script :: "(env \<times> stmt) list" where
  "seed_script =
    [(seed_env, insert_dakahlia), (seed_env, insert_demo_export), (seed_env, insert_companies),
     (seed_env, insert_contact), (seed_env, insert_deal)]"

definition seeded :: db where
  "seeded = run init_db seed_script"

text \<open>Statements tried on the seeded database.\<close>

definition move_company :: stmt where
  "move_company = UPDATE ''clients.companies''
     [(''tenant_id'', \<lambda>r. Some (VUuid demo_export))]
     (\<lambda>r. cell r ''uuid'' = Some (VUuid gulf_fresh))"

definition rename_company :: stmt where
  "rename_company = UPDATE ''clients.companies''
     [(''name'', \<lambda>r. Some (VStr ''Gulf Fresh Foods''))]
     (\<lambda>r. cell r ''uuid'' = Some (VUuid gulf_fresh))"

definition insert_foreign_contact :: stmt where
  "insert_foreign_contact = INSERT ''clients.contacts''
     [''company_id'', ''first_name'', ''last_name'', ''tenant_id'']
     [[Some (VUuid gulf_fresh),
       Some (VStr ''Demo''),
       Some (VStr ''User''),
       Some (VUuid demo_export)]]"

definition insert_audit :: stmt where
  "insert_audit = INSERT ''audit_logs''
     [''entity_type'', ''entity_id'', ''action'', ''new_values'', ''tenant_id'']
     [[Some (VStr ''deal''),
       Some (VUuid vegetables_deal),
       Some (VStr ''create''),
       Some (VJson ''{}''),
       Some (VUuid dakahlia)]]"

definition deactivate_audit :: stmt where
  "deactivate_audit = UPDATE ''audit_logs''
     [(''is_active'', \<lambda>r. Some (VBool False)), (''action'', \<lambda>r. Some (VStr ''delete''))]
     (\<lambda>r. cell r ''entity_id'' = Some (VUuid vegetables_deal))"

definition delete_audit :: stmt where
  "delete_audit = DELETE ''audit_logs'' (\<lambda>r. cell r ''entity_id'' = Some (VUuid vegetables_deal))"

definition insert_mismatched_order :: stmt where
  "insert_mismatched_order = INSERT ''orders.orders''
     [''order_number'', ''deal_id'', ''company_id'', ''tenant_id'']
     [[Some (VStr ''ORD-2025-001''),
       Some (VUuid vegetables_deal),
       Some (VUuid saudi_agri),
       Some (VUuid dakahlia)]]"

definition insert_order_without_deal :: stmt where
  "insert_order_without_deal = INSERT ''orders.orders''
     [''order_number'', ''company_id'', ''tenant_id'']
     [[Some (VStr ''ORD-2025-002''),
       Some (VUuid gulf_fresh),
       Some (VUuid dakahlia)]]"

definition insert_second_primary :: stmt where
  "insert_second_primary = INSERT ''clients.contacts''
     [''company_id'', ''first_name'', ''last_name'', ''is_primary'', ''tenant_id'']
     [[Some (VUuid gulf_fresh),
       Some (VStr ''Abdullah''),
       Some (VStr ''Al-Saud''),
       Some (VBool True),
       Some (VUuid dakahlia)]]"

definition insert_odd_deal :: stmt where
  "insert_odd_deal = INSERT ''deals.deals''
     [''title'', ''stage'', ''probability'', ''tenant_id'']
     [[Some (VStr ''Organic Produce Partnership''),
       Some (VStr ''archived''),
       Some (VInt 150),
       Some (VUuid dakahlia)]]"



section \<open>Properties of the helpers\<close>

lemma mset_insert_sorted: "mset (insert_sorted f x ys) = add_mset x (mset ys)"
  by (induction ys) auto

lemma mset_sorted_elements: "mset (sorted_elements f xs) = mset xs"
  by (induction xs) (auto simp: sorted_elements_def mset_insert_sorted)

lemma length_utf16: "length (utf16 s) = length s"
  by (simp add: utf16_def)

lemma js_slice_prefix: "0 \<le> m \<Longrightarrow> m < int (length s) \<Longrightarrow> js_slice s 0 m = take (nat m) s"
  by (simp add: js_slice_def Let_def min_def)

text \<open>
  C9. \<^verbatim>\<open>sortBy\<close> leaves its input alone: for every allocated array, key path and
  direction (and whatever \<^verbatim>\<open><\<close> answers), after the call the input array, and every
  other array that existed, holds the elements it held before; the result is an array at
  a new address, different from the input's, and its elements are a permutation of the
  input's.
\<close>

theorem sortBy_frame:
  assumes "array < length h"
    and "sortBy lt h array key direction = (h', result)"
  shows "h' ! array = h ! array
    \<and> (\<forall>b < length h. h' ! b = h ! b)
    \<and> result \<noteq> array
    \<and> result < length h'
    \<and> mset (h' ! result) = mset (h ! array)"
proof -
  let ?cmp = "sortBy_compare lt key direction"
  have h': "h' = (h @ [h ! array])[length h := sorted_elements ?cmp (h ! array)]"
    and res: "result = length h"
    using assms(2) by (auto simp: sortBy_def spread_def array_sort_def nth_append)
  have others: "\<forall>b < length h. h' ! b = h ! b"
    by (simp add: h' nth_append)
  then have input: "h' ! array = h ! array"
    using assms(1) by blast
  have fresh: "result \<noteq> array"
    using assms(1) res by simp
  have allocated: "result < length h'"
    by (simp add: h' res)
  have perm: "mset (h' ! result) = mset (h ! array)"
    by (simp add: h' res mset_sorted_elements)
  show ?thesis
    using input others fresh allocated perm by blast
qed

theorem sortBy_frame_witness:
  "fst (sortBy (\<lambda>a b. case (a, b) of (JNum x, JNum y) \<Rightarrow> x < y | _ \<Rightarrow> False)
          [[JObj [(utf16 ''n'', JNum 2)], JObj [(utf16 ''n'', JNum 1)]]] 0 (utf16 ''n'') None) ! 0
     = [JObj [(utf16 ''n'', JNum 2)], JObj [(utf16 ''n'', JNum 1)]]
   \<and> snd (sortBy (\<lambda>a b. case (a, b) of (JNum x, JNum y) \<Rightarrow> x < y | _ \<Rightarrow> False)
          [[JObj [(utf16 ''n'', JNum 2)], JObj [(utf16 ''n'', JNum 1)]]] 0 (utf16 ''n'') None) = 1
   \<and> fst (sortBy (\<lambda>a b. case (a, b) of (JNum x, JNum y) \<Rightarrow> x < y | _ \<Rightarrow> False)
          [[JObj [(utf16 ''n'', JNum 2)], JObj [(utf16 ''n'', JNum 1)]]] 0 (utf16 ''n'') None) ! 1
     = [JObj [(utf16 ''n'', JNum 1)], JObj [(utf16 ''n'', JNum 2)]]"
proof -
  let ?lt = "\<lambda>a b. case (a, b) of (JNum x, JNum y) \<Rightarrow> x < y | _ \<Rightarrow> False"
  let ?h = "[[JObj [(utf16 ''n'', JNum 2)], JObj [(utf16 ''n'', JNum 1)]]]"
  obtain h' r where run: "sortBy ?lt ?h 0 (utf16 ''n'') None = (h', r)"
    by (cases "sortBy ?lt ?h 0 (utf16 ''n'') None")
  have valid: "(0::nat) < length ?h" by simp
  have same: "h' ! 0 = ?h ! 0"
    using sortBy_frame [OF valid run] by blast
  have r: "r = 1" and sorted: "h' ! 1 = [JObj [(utf16 ''n'', JNum 1)], JObj [(utf16 ''n'', JNum 2)]]"
    using run
    by (auto simp: sortBy_def spread_def array_sort_def sorted_elements_def SortCompare_def
        sortBy_compare_def key_path_def utf16_def)
  show ?thesis
    unfolding run using same r sorted by simp
qed

text \<open>
  C10, as the code has it. For every string and every integer \<open>maxLength\<close> that is not
  negative, \<^verbatim>\<open>truncateText\<close> returns the text itself when it has at most
  \<open>maxLength\<close> code units, and otherwise its first \<open>maxLength\<close> code units followed
  by \<^verbatim>\<open>'...'\<close>, a string of exactly \<open>maxLength + 3\<close> code units; with the default
  of 50 the result never has more than 53.
\<close>

theorem truncateText_spec:
  "(int (length text) \<le> m \<longrightarrow> truncateText text (Some m) = text)
   \<and> (0 \<le> m \<and> m < int (length text) \<longrightarrow>
        truncateText text (Some m) = take (nat m) text @ utf16 ''...''
        \<and> int (length (truncateText text (Some m))) = m + 3)
   \<and> truncateText text None = truncateText text (Some 50)
   \<and> (length text \<le> 50 \<longrightarrow> truncateText text None = text)
   \<and> length (truncateText text None) \<le> 53"
proof -
  have a: "int (length text) \<le> m \<longrightarrow> truncateText text (Some m) = text"
    by (simp add: truncateText_def)
  have b: "truncateText text (Some k) = take (nat k) text @ utf16 ''...''
      \<and> int (length (truncateText text (Some k))) = k + 3"
    if "0 \<le> k" "k < int (length text)" for k
    using that by (simp add: truncateText_def js_slice_prefix length_utf16)
  have c: "truncateText text None = truncateText text (Some 50)"
    by (simp add: truncateText_def)
  have d: "length (truncateText text None) \<le> 53"
  proof (cases "int (length text) \<le> 50")
    case True
    then show ?thesis by (simp add: truncateText_def)
  next
    case False
    then have "int (length (truncateText text (Some 50))) = 50 + 3"
      using b [of 50] by (simp add: length_utf16)
    then show ?thesis unfolding c by linarith
  qed
  have e: "length text \<le> 50 \<longrightarrow> truncateText text None = text"
    by (simp add: truncateText_def)
  show ?thesis
    using a b [of m] c d e by blast
qed

theorem truncateText_spec_witness:
  "truncateText (utf16 ''hello'') (Some 9) = utf16 ''hello''
   \<and> truncateText (utf16 ''hello'') (Some 2) = utf16 ''he...''
   \<and> length (truncateText (utf16 ''hello'') (Some 2)) = 5
   \<and> truncateText (utf16 ''hello'') None = utf16 ''hello''"
  using truncateText_spec [of "utf16 ''hello''" 9] truncateText_spec [of "utf16 ''hello''" 2]
  by (simp add: utf16_def)

text \<open>
  C10 as it is written does not hold for a negative \<open>maxLength\<close>: \<^verbatim>\<open>slice(0, -2)\<close>
  drops the last two code units, so \<^verbatim>\<open>truncateText('hello', -2)\<close> is \<^verbatim>\<open>'hel...'\<close>,
  six code units and not \<open>-2 + 3\<close>.
\<close>

theorem truncateText_negative_counterexample:
  "truncateText (utf16 ''hello'') (Some (- 2)) = utf16 ''hel...''
   \<and> int (length (truncateText (utf16 ''hello'') (Some (- 2)))) \<noteq> - 2 + 3"
  by (simp add: truncateText_def js_slice_def utf16_def)

section \<open>The constraints hold in every state a session reaches\<close>

subsection \<open>The schema is well formed\<close>

lemma schema_tables_distinct: "distinct (map fst schema)"
  by code_simp

lemma schema_columns_distinct: "list_all (\<lambda>(t, cols). distinct (map fst cols)) schema"
  by code_simp

lemma schema_lookup: "map_of schema t = Some cols \<longleftrightarrow> (t, cols) \<in> set schema"
  using schema_tables_distinct by (simp add: map_of_eq_Some_iff)

lemma schema_columns: "map_of schema t = Some cols \<Longrightarrow> distinct (map fst cols)"
  using schema_columns_distinct by (auto simp: schema_lookup list_all_iff)

subsection \<open>One row\<close>

lemma coerce_idem: "coerce t c ty v = Inr v' \<Longrightarrow> coerce t c ty v' = Inr v'"
  by (auto simp: coerce_def split: coltype.splits val.splits if_splits)

lemma coerce_cell_idem: "coerce_cell t c ty x = Inr x' \<Longrightarrow> coerce_cell t c ty x' = Inr x'"
  by (cases x) (auto split: sum.splits dest: coerce_idem)

lemma coerce_row_keys: "coerce_row t cols r = Inr r' \<Longrightarrow> map fst r' = map fst cols"
proof (induction cols arbitrary: r')
  case Nil
  then show ?case by simp
next
  case (Cons col cols)
  obtain c0 ty cs where col: "col = (c0, ty, cs)" by (cases col)
  from Cons.prems show ?case
    by (auto simp: col split: sum.splits dest: Cons.IH)
qed

lemma cell_Cons: "cell ((k, x) # r) c = (if c = k then x else cell r c)"
  by (simp add: cell_def)

lemma coerce_row_cell_of:
  "coerce_row t cols r = Inr r' \<Longrightarrow> distinct (map fst cols) \<Longrightarrow> (c, ty, cs) \<in> set cols
     \<Longrightarrow> coerce_cell t c ty (cell r c) = Inr (cell r' c)"
proof (induction cols arbitrary: r')
  case Nil
  then show ?case by simp
next
  case (Cons col cols)
  obtain c0 ty0 cs0 where col: "col = (c0, ty0, cs0)" by (cases col)
  from Cons.prems(1) obtain x r'' where x: "coerce_cell t c0 ty0 (cell r c0) = Inr x"
    and rest: "coerce_row t cols r = Inr r''" and r': "r' = (c0, x) # r''"
    by (auto simp: col split: sum.splits)
  have fresh: "c0 \<notin> set (map fst cols)" and dist: "distinct (map fst cols)"
    using Cons.prems(2) by (auto simp: col)
  show ?case
  proof (cases "(c, ty, cs) = (c0, ty0, cs0)")
    case True
    then show ?thesis
      using x by (simp add: r' cell_Cons)
  next
    case False
    then have mem: "(c, ty, cs) \<in> set cols"
      using Cons.prems(3) by (auto simp: col)
    then have "c \<noteq> c0"
      using fresh by force
    then show ?thesis
      using Cons.IH [OF rest dist mem] by (simp add: r' cell_Cons)
  qed
qed

lemma coerce_row_fixed:
  "\<forall>(c, ty, cs) \<in> set cols. coerce_cell t c ty (cell r c) = Inr (cell r c)
     \<Longrightarrow> coerce_row t cols r = Inr (map (\<lambda>col. (fst col, cell r (fst col))) cols)"
proof (induction cols)
  case Nil
  then show ?case by simp
next
  case (Cons col cols)
  obtain c0 ty0 cs0 where col: "col = (c0, ty0, cs0)" by (cases col)
  from Cons show ?case
    by (simp add: col)
qed

lemma row_of_cells: "distinct (map fst r) \<Longrightarrow> map (\<lambda>k. (k, cell r k)) (map fst r) = r"
proof (induction r)
  case Nil
  then show ?case by simp
next
  case (Cons p r)
  obtain k x where p: "p = (k, x)" by (cases p)
  have "map (\<lambda>k'. (k', cell ((k, x) # r) k')) (map fst r) = map (\<lambda>k'. (k', cell r k')) (map fst r)"
    using Cons.prems by (intro map_cong) (auto simp: p cell_Cons)
  moreover have "map (\<lambda>k'. (k', cell r k')) (map fst r) = r"
    using Cons by simp
  ultimately have "map (\<lambda>k'. (k', cell ((k, x) # r) k')) (map fst r) = r"
    by (rule trans)
  then show ?case
    unfolding p list.map fst_conv by (simp add: cell_Cons)
qed

lemma coerce_row_idem:
  assumes "coerce_row t cols r = Inr r'" and "distinct (map fst cols)"
  shows "coerce_row t cols r' = Inr r'"
proof -
  have keys: "map fst r' = map fst cols"
    using assms(1) by (rule coerce_row_keys)
  have "\<forall>(c, ty, cs) \<in> set cols. coerce_cell t c ty (cell r' c) = Inr (cell r' c)"
    using coerce_row_cell_of [OF assms] by (auto dest: coerce_cell_idem)
  then have "coerce_row t cols r' = Inr (map (\<lambda>col. (fst col, cell r' (fst col))) cols)"
    by (rule coerce_row_fixed)
  also have "map (\<lambda>col. (fst col, cell r' (fst col))) cols = map (\<lambda>k. (k, cell r' k)) (map fst r')"
    by (simp add: keys comp_def)
  also have "\<dots> = r'"
    using assms(2) keys by (intro row_of_cells) simp
  finally show ?thesis .
qed

lemma coerce_row_cell:
  assumes "coerce_row t cols r = Inr r" and "distinct (map fst cols)"
    and "(c, ty, cs) \<in> set cols" and "cell r c = Some v"
  shows "coerce t c ty v = Inr v"
  using coerce_row_cell_of [OF assms(1-3)] assms(4) by (auto split: sum.splits)

lemma null_violation_None:
  "null_violation t cols r = None
     \<longleftrightarrow> (\<forall>col \<in> set cols. col_not_null col \<longrightarrow> cell r (fst col) \<noteq> None)"
proof -
  have "null_violation t cols r = None
      \<longleftrightarrow> filter (\<lambda>col. col_not_null col \<and> cell r (fst col) = None) cols = []"
    by (simp add: null_violation_def split: list.splits)
  then show ?thesis
    by (auto simp: filter_empty_conv)
qed

lemma unique_violation_None:
  "unique_violation t cols others r = None \<longleftrightarrow>
     (\<forall>col \<in> set cols. col_unique col \<longrightarrow>
        cell r (fst col) = None \<or> cell r (fst col) \<notin> (\<lambda>other. cell other (fst col)) ` set others)"
proof -
  have "unique_violation t cols others r = None
      \<longleftrightarrow> filter (\<lambda>col. col_unique col \<and> cell r (fst col) \<noteq> None
            \<and> cell r (fst col) \<in> set (map (\<lambda>other. cell other (fst col)) others)) cols = []"
    by (simp add: unique_violation_def split: list.splits)
  then show ?thesis
    by (auto simp: filter_empty_conv)
qed

lemma check_row_ok:
  assumes "check_row t cols others r = Inr r'" and "distinct (map fst cols)"
  shows "conforms t cols r'" and "unique_violation t cols others r' = None"
    and "coerce_row t cols r = Inr r'"
  using assms
  by (auto simp: check_row_def conforms_def split: sum.splits option.splits dest: coerce_row_idem)

subsection \<open>Uniqueness\<close>

lemma col_distinct_alt:
  "col_distinct c rows = distinct (map (\<lambda>r. cell r c) (filter (\<lambda>r. cell r c \<noteq> None) rows))"
  by (simp add: col_distinct_def filter_map comp_def)

lemma col_distinct_snoc:
  "col_distinct c rows \<Longrightarrow> cell r c = None \<or> cell r c \<notin> (\<lambda>other. cell other c) ` set rows
     \<Longrightarrow> col_distinct c (rows @ [r])"
  by (auto simp: col_distinct_alt)

lemma col_distinct_replace:
  "col_distinct c (xs @ r # ys)
     \<Longrightarrow> cell r' c = None \<or> cell r' c \<notin> (\<lambda>other. cell other c) ` set (xs @ ys)
     \<Longrightarrow> col_distinct c (xs @ r' # ys)"
  by (cases "cell r c = None") (auto simp: col_distinct_alt)

lemma col_distinct_filter: "col_distinct c rows \<Longrightarrow> col_distinct c (filter P rows)"
proof -
  assume "col_distinct c rows"
  then have "distinct (map (\<lambda>r. cell r c) (filter P (filter (\<lambda>r. cell r c \<noteq> None) rows)))"
    unfolding col_distinct_alt by (rule distinct_map_filter)
  then show ?thesis
    by (simp add: col_distinct_alt conj_commute)
qed

lemma rows_unique_snoc:
  "rows_unique cols rows \<Longrightarrow> unique_violation t cols rows r = None \<Longrightarrow> rows_unique cols (rows @ [r])"
  by (auto simp: rows_unique_def list_all_iff unique_violation_None intro!: col_distinct_snoc)

lemma rows_unique_replace:
  "rows_unique cols (xs @ r # ys) \<Longrightarrow> unique_violation t cols (xs @ ys) r' = None
     \<Longrightarrow> rows_unique cols (xs @ r' # ys)"
  unfolding rows_unique_def list_all_iff unique_violation_None
  by (blast intro: col_distinct_replace)

lemma rows_unique_filter: "rows_unique cols rows \<Longrightarrow> rows_unique cols (filter P rows)"
  by (auto simp: rows_unique_def list_all_iff intro: col_distinct_filter)

subsection \<open>The loops\<close>

lemma insert_rows_ok:
  assumes "insert_rows e t cols old i gs news sq = (None, news', sq')"
    and "distinct (map fst cols)"
  shows "\<exists>added. news' = news @ added \<and> list_all (conforms t cols) added
           \<and> (rows_unique cols (old @ news) \<longrightarrow> rows_unique cols (old @ news'))"
  using assms(1)
proof (induction gs arbitrary: i news sq)
  case Nil
  then show ?case by simp
next
  case (Cons g gs)
  then obtain r where chk: "check_row t cols (old @ news) (build_row e i sq t cols g) = Inr r"
    and rest: "insert_rows e t cols old (Suc i) gs (news @ [r]) (advance_seqs t cols g sq) = (None, news', sq')"
    by (auto split: sum.splits)
  from Cons.IH [OF rest] obtain added where added: "news' = (news @ [r]) @ added"
    "list_all (conforms t cols) added"
    "rows_unique cols (old @ news @ [r]) \<longrightarrow> rows_unique cols (old @ news')"
    by auto
  have r: "conforms t cols r" "unique_violation t cols (old @ news) r = None"
    using check_row_ok [OF chk assms(2)] by simp_all
  have "rows_unique cols (old @ news) \<longrightarrow> rows_unique cols (old @ news')"
    using added(3) rows_unique_snoc [OF _ r(2)] by simp
  then show ?case
    using added(1,2) r(1) by (intro exI [of _ "r # added"]) simp
qed

lemma update_rows_ok:
  assumes "update_rows e t cols sets w done news todo = Inr (rows, news')"
    and "distinct (map fst cols)"
  shows "\<exists>added. news' = news @ added \<and> list_all (conforms t cols) added
           \<and> set rows = set done \<union> {r \<in> set todo. \<not> w r} \<union> set added
           \<and> (rows_unique cols (done @ todo) \<longrightarrow> rows_unique cols rows)"
  using assms(1)
proof (induction todo arbitrary: "done" news)
  case Nil
  then show ?case by simp
next
  case (Cons r todo)
  show ?case
  proof (cases "w r")
    case False
    then have rest: "update_rows e t cols sets w (done @ [r]) news todo = Inr (rows, news')"
      using Cons.prems by simp
    from Cons.IH [OF rest] False show ?thesis by auto
  next
    case True
    then obtain r1 r' where
      chk: "check_row t cols (done @ todo) r1 = Inr r'"
      and rest: "update_rows e t cols sets w (done @ [r']) (news @ [r']) todo = Inr (rows, news')"
      using Cons.prems by (auto split: sum.splits)
    from Cons.IH [OF rest] obtain added where added: "news' = (news @ [r']) @ added"
      "list_all (conforms t cols) added"
      "set rows = set (done @ [r']) \<union> {r \<in> set todo. \<not> w r} \<union> set added"
      "rows_unique cols ((done @ [r']) @ todo) \<longrightarrow> rows_unique cols rows"
      by blast
    have r': "conforms t cols r'" "unique_violation t cols (done @ todo) r' = None"
      using check_row_ok [OF chk assms(2)] by simp_all
    have "rows_unique cols (done @ r # todo) \<longrightarrow> rows_unique cols rows"
      using added(4) rows_unique_replace [OF _ r'(2)] by simp
    then show ?thesis
      using added(1,2,3) r'(1) True by (intro exI [of _ "r' # added"]) auto
  qed
qed

subsection \<open>Foreign keys\<close>

lemma outgoing_violation_None:
  "outgoing_violation T t news = None \<longleftrightarrow>
     (\<forall>fk \<in> set fkeys. fst fk = t \<longrightarrow> (\<forall>r \<in> set news. \<not> dangling T fk r))"
proof -
  have "outgoing_violation T t news = None
      \<longleftrightarrow> filter (\<lambda>fk. fst fk = t \<and> list_ex (dangling T fk) news) fkeys = []"
    by (simp add: outgoing_violation_def split: list.splits)
  then show ?thesis
    by (auto simp: filter_empty_conv list_ex_iff)
qed

lemma incoming_violation_None:
  "incoming_violation T t olds = None \<longleftrightarrow>
     (\<forall>fk \<in> set fkeys. fst (snd (snd fk)) = t \<longrightarrow> (\<forall>r \<in> set olds. \<not> orphaning T fk r))"
proof -
  have "incoming_violation T t olds = None
      \<longleftrightarrow> filter (\<lambda>fk. fst (snd (snd fk)) = t \<and> list_ex (orphaning T fk) olds) fkeys = []"
    by (simp add: incoming_violation_def split: list.splits)
  then show ?thesis
    by (auto simp: filter_empty_conv list_ex_iff)
qed

lemma fk_ok_step:
  assumes ok: "fk_ok T"
    and rows: "set rows = {r \<in> set (T t). \<not> w r} \<union> set news"
    and out: "outgoing_violation (T(t := rows)) t news = None"
    and inc: "incoming_violation (T(t := rows)) t (filter w (T t)) = None"
  shows "fk_ok (T(t := rows))"
  unfolding fk_ok_def list_all_iff
proof (intro ballI)
  fix fk r
  let ?T = "T(t := rows)"
  assume fk: "fk \<in> set fkeys" and r: "r \<in> set (?T (fst fk))"
  obtain t1 c1 t2 c2 where fk_eq: "fk = (t1, c1, t2, c2)" by (cases fk)
  show "\<not> dangling ?T fk r"
  proof (cases "t1 = t \<and> r \<in> set news")
    case True
    then show ?thesis
      using out fk by (auto simp: outgoing_violation_None fk_eq)
  next
    case False
    then have old: "r \<in> set (T t1)"
      using r rows by (auto simp: fk_eq split: if_splits)
    show ?thesis
    proof (cases "cell r c1")
      case None
      then show ?thesis by (simp add: dangling_def fk_eq)
    next
      case (Some k)
      have "\<not> dangling T fk r"
        using ok fk old by (auto simp: fk_ok_def list_all_iff fk_eq)
      then have "key_present T t2 c2 (cell r c1)"
        using Some by (simp add: dangling_def fk_eq)
      then obtain r2 where r2: "r2 \<in> set (T t2)" "cell r2 c2 = cell r c1"
        by (auto simp: key_present_def)
      have ref: "key_present ?T t1 c1 (cell r c1)"
        using r by (auto simp: key_present_def fk_eq)
      have "key_present ?T t2 c2 (cell r c1)"
      proof (cases "t2 = t \<and> w r2")
        case True
        then have "\<not> orphaning ?T fk r2"
          using inc fk r2(1) by (auto simp: incoming_violation_None fk_eq)
        then show ?thesis
          using r2(2) Some ref by (auto simp: orphaning_def fk_eq)
      next
        case False
        then have "r2 \<in> set (?T t2)"
          using r2(1) rows by auto
        then have "cell r2 c2 \<in> (\<lambda>r. cell r c2) ` set (?T t2)"
          by (rule imageI)
        then show ?thesis
          unfolding key_present_def r2(2) by simp
      qed
      then show ?thesis
        by (simp add: dangling_def fk_eq)
    qed
  qed
qed


subsection \<open>Every statement keeps the database consistent\<close>

lemma consistent_table:
  assumes "consistent d" and "map_of schema t = Some cols"
  shows "list_all (conforms t cols) (tables d t)" and "rows_unique cols (tables d t)"
    and "fk_ok (tables d)"
  using assms by (auto simp: consistent_def list_all_iff schema_lookup)

lemma consistent_replace:
  assumes "consistent d" and "map_of schema t = Some cols"
    and "list_all (conforms t cols) rows" and "rows_unique cols rows"
    and "fk_ok ((tables d)(t := rows))"
    and "tables d' = (tables d)(t := rows)"
  shows "consistent d'"
proof -
  have "list_all (conforms t' cols') (((tables d)(t := rows)) t')
      \<and> rows_unique cols' (((tables d)(t := rows)) t')"
    if "(t', cols') \<in> set schema" for t' cols'
  proof (cases "t' = t")
    case True
    then have "cols' = cols"
      using that assms(2) by (simp add: schema_lookup [symmetric])
    then show ?thesis
      using True assms(3,4) by simp
  next
    case False
    then show ?thesis
      using that assms(1) by (auto simp: consistent_def list_all_iff)
  qed
  then show ?thesis
    using assms(5) unfolding consistent_def list_all_iff assms(6) by blast
qed

lemma consistent_seqs: "consistent (d\<lparr>seqs := sq\<rparr>) = consistent d"
  by (simp add: consistent_def)

lemma exec_consistent:
  assumes "consistent d"
  shows "consistent (snd (exec e d s))"
proof (cases s)
  case (INSERT t names gs)
  show ?thesis
  proof (cases "fst (exec e d s)")
    case (Some err)
    then have "tables (snd (exec e d s)) = tables d"
      by (auto simp: INSERT Let_def split: option.splits prod.splits if_splits)
    then show ?thesis
      using assms by (simp add: consistent_def)
  next
    case None
    then obtain cols news sq where cols: "map_of schema t = Some cols"
      and ins: "insert_rows e t cols (tables d t) 0 (map (zip names) gs) [] (seqs d) = (None, news, sq)"
      and out: "outgoing_violation ((tables d)(t := tables d t @ news)) t news = None"
      and res: "snd (exec e d s) = \<lparr>tables = (tables d)(t := tables d t @ news), seqs = sq\<rparr>"
      by (auto simp: INSERT Let_def split: option.splits prod.splits if_splits)
    note old = consistent_table [OF assms cols]
    have news: "list_all (conforms t cols) news" "rows_unique cols (tables d t @ news)"
      using insert_rows_ok [OF ins schema_columns [OF cols]] old(2) by auto
    have "fk_ok ((tables d)(t := tables d t @ news))"
    proof (rule fk_ok_step [where w = "\<lambda>r. False" and news = news])
      show "fk_ok (tables d)" by (rule old(3))
      show "set (tables d t @ news) = {r \<in> set (tables d t). \<not> False} \<union> set news" by auto
      show "outgoing_violation ((tables d)(t := tables d t @ news)) t news = None" by (rule out)
      show "incoming_violation ((tables d)(t := tables d t @ news)) t (filter (\<lambda>r. False) (tables d t)) = None"
        by (simp add: incoming_violation_None)
    qed
    then show ?thesis
      using old(1) news by (intro consistent_replace [OF assms cols, where rows = "tables d t @ news"]) (simp_all add: res)
  qed
next
  case (UPDATE t sets w)
  show ?thesis
  proof (cases "fst (exec e d s)")
    case (Some err)
    then have "snd (exec e d s) = d"
      by (auto simp: UPDATE Let_def split: option.splits prod.splits sum.splits)
    then show ?thesis
      using assms by simp
  next
    case None
    then obtain cols rows news where cols: "map_of schema t = Some cols"
      and upd: "update_rows e t cols sets w [] [] (tables d t) = Inr (rows, news)"
      and out: "outgoing_violation ((tables d)(t := rows)) t news = None"
      and inc: "incoming_violation ((tables d)(t := rows)) t (filter w (tables d t)) = None"
      and res: "snd (exec e d s) = d\<lparr>tables := (tables d)(t := rows)\<rparr>"
      by (auto simp: UPDATE Let_def split: option.splits prod.splits sum.splits)
    note old = consistent_table [OF assms cols]
    have rows: "list_all (conforms t cols) news"
      "set rows = {r \<in> set (tables d t). \<not> w r} \<union> set news"
      "rows_unique cols rows"
      using update_rows_ok [OF upd schema_columns [OF cols]] old(2) by auto
    have conf: "list_all (conforms t cols) rows"
      using rows(1,2) old(1) by (auto simp: list_all_iff)
    have "fk_ok ((tables d)(t := rows))"
      using old(3) rows(2) out inc by (rule fk_ok_step)
    then show ?thesis
      using conf rows(3) by (intro consistent_replace [OF assms cols, where rows = rows]) (simp_all add: res)
  qed
next
  case (DELETE t w)
  show ?thesis
  proof (cases "fst (exec e d s)")
    case (Some err)
    then have "snd (exec e d s) = d"
      by (auto simp: DELETE Let_def split: option.splits prod.splits sum.splits)
    then show ?thesis
      using assms by simp
  next
    case None
    let ?rows = "filter (\<lambda>r. \<not> w r) (tables d t)"
    from None obtain cols where cols: "map_of schema t = Some cols"
      and inc: "incoming_violation ((tables d)(t := ?rows)) t (filter w (tables d t)) = None"
      and res: "snd (exec e d s) = d\<lparr>tables := (tables d)(t := ?rows)\<rparr>"
      by (auto simp: DELETE Let_def split: option.splits prod.splits sum.splits)
    note old = consistent_table [OF assms cols]
    have conf: "list_all (conforms t cols) ?rows"
      using old(1) by (auto simp: list_all_iff)
    have uniq: "rows_unique cols ?rows"
      using old(2) by (rule rows_unique_filter)
    have "fk_ok ((tables d)(t := ?rows))"
    proof (rule fk_ok_step [where w = w and news = "[]"])
      show "fk_ok (tables d)" by (rule old(3))
      show "set ?rows = {r \<in> set (tables d t). \<not> w r} \<union> set []" by auto
      show "outgoing_violation ((tables d)(t := ?rows)) t [] = None"
        by (simp add: outgoing_violation_None)
      show "incoming_violation ((tables d)(t := ?rows)) t (filter w (tables d t)) = None"
        by (rule inc)
    qed
    then show ?thesis
      using conf uniq by (intro consistent_replace [OF assms cols, where rows = ?rows]) (simp_all add: res)
  qed
qed

lemma init_consistent: "consistent init_db"
  by (simp add: consistent_def init_db_def list_all_iff rows_unique_def col_distinct_def fk_ok_def)

lemma run_consistent: "consistent d \<Longrightarrow> consistent (run d script)"
proof (induction script arbitrary: d)
  case Nil
  then show ?case by simp
next
  case (Cons step script)
  obtain e s where step: "step = (e, s)" by (cases step)
  show ?case
    using Cons.IH [OF exec_consistent [OF Cons.prems, of e s]] by (simp add: step)
qed

lemma reachable_consistent: "consistent (run init_db script)"
  by (rule run_consistent [OF init_consistent])

section \<open>What the schema guarantees, and what it leaves open\<close>

subsection \<open>Reading the invariant\<close>

lemma reachable_cell:
  assumes "map_of schema t = Some cols" and "(c, ty, cs) \<in> set cols"
    and "r \<in> set (tables (run init_db script) t)"
  shows "col_not_null (c, ty, cs) \<Longrightarrow> cell r c \<noteq> None"
    and "cell r c = Some v \<Longrightarrow> coerce t c ty v = Inr v"
proof -
  have "conforms t cols r"
    using consistent_table(1) [OF reachable_consistent assms(1)] assms(3)
    by (simp add: list_all_iff)
  then have typed: "coerce_row t cols r = Inr r" and filled: "null_violation t cols r = None"
    by (simp_all add: conforms_def)
  show "col_not_null (c, ty, cs) \<Longrightarrow> cell r c \<noteq> None"
    using filled assms(2) by (force simp: null_violation_None)
  show "cell r c = Some v \<Longrightarrow> coerce t c ty v = Inr v"
    using coerce_row_cell [OF typed schema_columns [OF assms(1)] assms(2)] by simp
qed

lemma reachable_distinct:
  assumes "map_of schema t = Some cols" and "(c, ty, cs) \<in> set cols"
    and "col_unique (c, ty, cs)"
  shows "col_distinct c (tables (run init_db script) t)"
  using consistent_table(2) [OF reachable_consistent assms(1), of script] assms(2,3)
  by (force simp: rows_unique_def list_all_iff)

lemma reachable_reference:
  assumes "(t1, c1, t2, c2) \<in> set fkeys"
    and "r \<in> set (tables (run init_db script) t1)" and "cell r c1 \<noteq> None"
  shows "\<exists>r2 \<in> set (tables (run init_db script) t2). cell r2 c2 = cell r c1"
proof -
  have "fk_ok (tables (run init_db script))"
    using reachable_consistent by (simp add: consistent_def)
  then have "\<not> dangling (tables (run init_db script)) (t1, c1, t2, c2) r"
    using assms(1,2) by (force simp: fk_ok_def list_all_iff)
  then show ?thesis
    using assms(3) by (auto simp: dangling_def key_present_def)
qed

lemma col_distinct_inj:
  assumes "col_distinct c rows" and "r1 \<in> set rows" and "r2 \<in> set rows"
    and "cell r1 c = cell r2 c" and "cell r1 c \<noteq> None"
  shows "r1 = r2"
proof -
  have "inj_on (\<lambda>r. cell r c) (set (filter (\<lambda>r. cell r c \<noteq> None) rows))"
    using assms(1) by (simp add: col_distinct_alt distinct_map)
  then show ?thesis
    using assms(2-5) by (auto simp: inj_on_def)
qed

lemma col_distinct_total:
  assumes "col_distinct c rows" and "\<forall>r \<in> set rows. cell r c \<noteq> None"
  shows "distinct (map (\<lambda>r. cell r c) rows)"
proof -
  have "filter (\<lambda>r. cell r c \<noteq> None) rows = rows"
    using assms(2) by (simp add: filter_id_conv)
  then show ?thesis
    using assms(1) by (simp add: col_distinct_alt)
qed

lemma coerce_UUID: "coerce t c UUID v = Inr v' \<Longrightarrow> \<exists>u. v' = VUuid u"
  by (auto simp: coerce_def split: val.splits)

lemma coerce_VARCHAR: "coerce t c (VARCHAR n) v = Inr v' \<Longrightarrow> \<exists>s. v' = VStr s \<and> length s \<le> n"
  by (auto simp: coerce_def split: val.splits if_splits)

lemma coerce_INTEGER:
  "coerce t c INTEGER v = Inr v' \<Longrightarrow> \<exists>i. v' = VInt i \<and> - 2147483648 \<le> i \<and> i \<le> 2147483647"
  by (auto simp: coerce_def split: val.splits if_splits)

lemma orders_lookup: "map_of schema ''orders.orders'' = Some orders_orders_columns"
  by (simp add: schema_def)

lemma deals_lookup: "map_of schema ''deals.deals'' = Some deals_deals_columns"
  by (simp add: schema_def)


lemma contacts_lookup: "map_of schema ''clients.contacts'' = Some clients_contacts_columns"
  by (simp add: schema_def)

subsection \<open>Orders\<close>

text \<open>
  C7. In every state a session reaches from the empty database, every row of
  \<^verbatim>\<open>orders.orders\<close> has an order number and a company reference that are not
  \<^verbatim>\<open>NULL\<close>, and no two rows share an order number. The deal reference is optional:
  the seeded database accepts an order without one and stores \<^verbatim>\<open>NULL\<close>.
\<close>

theorem order_number_unique_company_mandatory:
  "(\<forall>r \<in> set (tables (run init_db script) ''orders.orders'').
      (\<exists>n. cell r ''order_number'' = Some (VStr n)) \<and> (\<exists>u. cell r ''company_id'' = Some (VUuid u)))
   \<and> distinct (map (\<lambda>r. cell r ''order_number'') (tables (run init_db script) ''orders.orders''))
   \<and> fst (exec seed_env seeded insert_order_without_deal) = None
   \<and> map (\<lambda>r. cell r ''deal_id'') (tables (snd (exec seed_env seeded insert_order_without_deal)) ''orders.orders'')
       = [None]"
proof -
  let ?rows = "tables (run init_db script) ''orders.orders''"
  have number_col: "(''order_number'', VARCHAR 100, [UNIQUE, NOT_NULL]) \<in> set orders_orders_columns"
    and company_col: "(''company_id'', UUID, [NOT_NULL, REFERENCES ''clients.companies'' ''uuid''])
        \<in> set orders_orders_columns"
    by (simp_all add: orders_orders_columns_def)
  have cells: "(\<exists>n. cell r ''order_number'' = Some (VStr n)) \<and> (\<exists>u. cell r ''company_id'' = Some (VUuid u))"
    if r: "r \<in> set ?rows" for r
  proof -
    obtain v where v: "cell r ''order_number'' = Some v"
      using reachable_cell(1) [OF orders_lookup number_col r] by auto
    obtain w where w: "cell r ''company_id'' = Some w"
      using reachable_cell(1) [OF orders_lookup company_col r] by auto
    show ?thesis
      using coerce_VARCHAR [OF reachable_cell(2) [OF orders_lookup number_col r v]]
        coerce_UUID [OF reachable_cell(2) [OF orders_lookup company_col r w]] v w
      by auto
  qed
  have "col_distinct ''order_number'' ?rows"
    using reachable_distinct [OF orders_lookup number_col] by simp
  then have uniq: "distinct (map (\<lambda>r. cell r ''order_number'') ?rows)"
    using cells by (intro col_distinct_total) auto
  have optional: "fst (exec seed_env seeded insert_order_without_deal) = None"
    "map (\<lambda>r. cell r ''deal_id'') (tables (snd (exec seed_env seeded insert_order_without_deal)) ''orders.orders'')
       = [None]"
    by code_simp+
  show ?thesis
    using cells uniq optional by blast
qed

theorem order_number_unique_company_mandatory_witness:
  "map (\<lambda>r. cell r ''order_number'') (tables (run seeded [(seed_env, insert_mismatched_order)]) ''orders.orders'')
     = [Some (VStr ''ORD-2025-001'')]
   \<and> distinct (map (\<lambda>r. cell r ''order_number'')
        (tables (run init_db (seed_script @ [(seed_env, insert_mismatched_order)])) ''orders.orders''))"
proof -
  have "map (\<lambda>r. cell r ''order_number'') (tables (run seeded [(seed_env, insert_mismatched_order)]) ''orders.orders'')
     = [Some (VStr ''ORD-2025-001'')]"
    by code_simp
  then show ?thesis
    using order_number_unique_company_mandatory [of "seed_script @ [(seed_env, insert_mismatched_order)]"]
    by blast
qed

subsection \<open>Reading one statement\<close>


lemma exec_other_table:
  assumes "t \<noteq> (case s of INSERT t' names rows \<Rightarrow> t' | UPDATE t' sets w \<Rightarrow> t' | DELETE t' w \<Rightarrow> t')"
  shows "tables (snd (exec e d s)) t = tables d t"
  using assms
  by (cases s) (auto simp: Let_def split: option.splits prod.splits sum.splits if_splits)

lemma exec_insert_appends:
  "\<exists>added. tables (snd (exec e d (INSERT t names rows))) t' = tables d t' @ added"
  by (auto simp: Let_def split: option.splits prod.splits sum.splits if_splits)

lemma exec_insert_one:
  assumes "exec e d (INSERT t names [vals]) = (None, d')" and "map_of schema t = Some cols"
  shows "\<exists>r. check_row t cols (tables d t) (build_row e 0 (seqs d) t cols (zip names vals)) = Inr r
           \<and> tables d' t = tables d t @ [r]"
  using assms
  by (auto simp: Let_def split: option.splits prod.splits sum.splits if_splits)

lemma cell_map_cols:
  "(c, ty, cs) \<in> set cols \<Longrightarrow> distinct (map fst cols)
     \<Longrightarrow> cell (map (\<lambda>col. (fst col, f col)) cols) c = f (c, ty, cs)"
proof (induction cols)
  case Nil
  then show ?case by simp
next
  case (Cons col cols)
  show ?case
  proof (cases "col = (c, ty, cs)")
    case True
    then show ?thesis by (simp add: cell_Cons)
  next
    case False
    then have "(c, ty, cs) \<in> set cols"
      using Cons.prems(1) by simp
    moreover from this have "c \<noteq> fst col"
      using Cons.prems(2) by (cases col) force
    ultimately show ?thesis
      using Cons by (simp add: cell_Cons)
  qed
qed

lemma cell_build_row:
  assumes "(c, ty, cs) \<in> set cols" and "distinct (map fst cols)"
  shows "cell (build_row e i sq t cols given) c =
           (case map_of given c of
              Some v \<Rightarrow> v
            | None \<Rightarrow> (case col_default (c, ty, cs) of
                         None \<Rightarrow> None
                       | Some d \<Rightarrow> default_value e i sq t c d))"
  unfolding build_row_def by (simp add: cell_map_cols [OF assms] split: option.splits)

lemma fkeys_eq:
  "fkeys =
    [(''auth.users'', ''tenant_id'', ''tenants'', ''uuid''),
     (''auth.user_roles'', ''user_id'', ''auth.users'', ''uuid''),
     (''auth.user_roles'', ''granted_by'', ''auth.users'', ''uuid''),
     (''auth.user_roles'', ''tenant_id'', ''tenants'', ''uuid''),
     (''clients.companies'', ''assigned_to'', ''auth.users'', ''uuid''),
     (''clients.companies'', ''tenant_id'', ''tenants'', ''uuid''),
     (''clients.company_addresses'', ''company_id'', ''clients.companies'', ''uuid''),
     (''clients.company_addresses'', ''tenant_id'', ''tenants'', ''uuid''),
     (''clients.contacts'', ''company_id'', ''clients.companies'', ''uuid''),
     (''clients.contacts'', ''tenant_id'', ''tenants'', ''uuid''),
     (''deals.deals'', ''company_id'', ''clients.companies'', ''uuid''),
     (''deals.deals'', ''contact_id'', ''clients.contacts'', ''uuid''),
     (''deals.deals'', ''assigned_to'', ''auth.users'', ''uuid''),
     (''deals.deals'', ''tenant_id'', ''tenants'', ''uuid''),
     (''deals.deal_activities'', ''deal_id'', ''deals.deals'', ''uuid''),
     (''deals.deal_activities'', ''tenant_id'', ''tenants'', ''uuid''),
     (''orders.orders'', ''deal_id'', ''deals.deals'', ''uuid''),
     (''orders.orders'', ''company_id'', ''clients.companies'', ''uuid''),
     (''orders.orders'', ''contact_id'', ''clients.contacts'', ''uuid''),
     (''orders.orders'', ''tenant_id'', ''tenants'', ''uuid''),
     (''orders.order_items'', ''order_id'', ''orders.orders'', ''uuid''),
     (''orders.order_items'', ''tenant_id'', ''tenants'', ''uuid''),
     (''documents.documents'', ''parent_document_id'', ''documents.documents'', ''uuid''),
     (''documents.documents'', ''tenant_id'', ''tenants'', ''uuid'')]"
  by code_simp

subsection \<open>Tenant references\<close>

lemma tenant_scoped_columns:
  "list_all (\<lambda>t. case map_of schema t of
                    None \<Rightarrow> False
                  | Some cols \<Rightarrow>
                      list_ex (\<lambda>col. fst col = ''tenant_id'' \<and> fst (snd col) = UUID \<and> col_not_null col) cols)
     tenant_scoped"
  by code_simp

subsection \<open>Columns that a statement leaves alone\<close>

lemma cell_assign:
  "map_of sets c = None \<Longrightarrow> cell (assign sets r) c = cell r c"
proof -
  assume none: "map_of sets c = None"
  have "map_of (map (\<lambda>(k, v). (k, case map_of sets k of Some expr \<Rightarrow> expr r0 | None \<Rightarrow> v)) r) c
      = map_of r c" for r0
    using none by (induction r) auto
  then show ?thesis
    by (simp add: assign_def cell_def)
qed

lemma cell_update_updated_at:
  "c \<noteq> ''updated_at'' \<Longrightarrow> cell (update_updated_at_column ts r) c = cell r c"
proof -
  assume other: "c \<noteq> ''updated_at''"
  have "map_of (map (\<lambda>(k, v). if k = ''updated_at'' then (k, Some (VTime ts)) else (k, v)) r) c
      = map_of r c"
    using other by (induction r) auto
  then show ?thesis
    by (simp add: update_updated_at_column_def cell_def)
qed

lemma fire_before_update_cell:
  "fire_before_update trgs t cols ts r = Inr r' \<Longrightarrow> c \<noteq> ''updated_at'' \<Longrightarrow> cell r' c = cell r c"
proof (induction trgs arbitrary: r)
  case Nil
  then show ?case by simp
next
  case (Cons trg trgs)
  obtain name target where trg: "trg = (name, target)" by (cases trg)
  from Cons.prems show ?case
    by (auto simp: trg cell_update_updated_at split: if_splits dest!: Cons.IH)
qed

lemma update_rows_keeps:
  assumes "update_rows e t cols sets w done news todo = Inr (rows, news')"
    and "distinct (map fst cols)" and "(c, ty, cs) \<in> set cols"
    and "c \<notin> set (map fst sets)" and "c \<noteq> ''updated_at''"
    and "list_all (conforms t cols) todo"
  shows "map (\<lambda>r. cell r c) rows = map (\<lambda>r. cell r c) (done @ todo)"
  using assms(1,6)
proof (induction todo arbitrary: "done" news)
  case Nil
  then show ?case by simp
next
  case (Cons r todo)
  have todo: "list_all (conforms t cols) todo" and r: "conforms t cols r"
    using Cons.prems(2) by simp_all
  show ?case
  proof (cases "w r")
    case False
    then have rest: "update_rows e t cols sets w (done @ [r]) news todo = Inr (rows, news')"
      using Cons.prems(1) by simp
    from Cons.IH [OF rest todo] show ?thesis by simp
  next
    case True
    then obtain r1 r' where
      trg: "fire_before_update triggers t cols (now e) (assign sets r) = Inr r1"
      and chk: "check_row t cols (done @ todo) r1 = Inr r'"
      and rest: "update_rows e t cols sets w (done @ [r']) (news @ [r']) todo = Inr (rows, news')"
      using Cons.prems(1) by (auto split: sum.splits)
    have "map_of sets c = None"
      using assms(4) by (simp add: map_of_eq_None_iff)
    then have "cell r1 c = cell r c"
      using fire_before_update_cell [OF trg assms(5)] by (simp add: cell_assign)
    then have "coerce_cell t c ty (cell r c) = Inr (cell r' c)"
      using coerce_row_cell_of [OF check_row_ok(3) [OF chk assms(2)] assms(2,3)] by simp
    moreover have "coerce_cell t c ty (cell r c) = Inr (cell r c)"
      using r coerce_row_cell_of [OF _ assms(2,3), where r = r and r' = r] by (simp add: conforms_def)
    ultimately have "cell r' c = cell r c"
      by simp
    then show ?thesis
      using Cons.IH [OF rest todo] by simp
  qed
qed

lemma exec_keeps_column:
  assumes "consistent d" and "map_of schema t = Some cols" and "(c, ty, cs) \<in> set cols"
    and "c \<noteq> ''updated_at''" and "\<not> assigns t c s" and "fst (exec e d s) = None"
  shows "take (length (survivors t s (tables d t))) (map (\<lambda>r. cell r c) (tables (snd (exec e d s)) t))
    = map (\<lambda>r. cell r c) (survivors t s (tables d t))"
proof (cases s)
  case (INSERT t' names vals)
  obtain added where "tables (snd (exec e d s)) t = tables d t @ added"
    using exec_insert_appends [of e d t' names vals t] by (auto simp: INSERT)
  then show ?thesis
    by (simp add: INSERT)
next
  case (DELETE t' w)
  show ?thesis
    using assms(6)
    by (auto simp: DELETE Let_def split: option.splits)
next
  case (UPDATE t' sets w)
  show ?thesis
  proof (cases "t' = t")
    case False
    then have "tables (snd (exec e d s)) t = tables d t"
      by (intro exec_other_table) (simp add: UPDATE)
    then show ?thesis
      by (simp add: UPDATE)
  next
    case True
    from assms(2,6) obtain rows news
      where upd: "update_rows e t cols sets w [] [] (tables d t) = Inr (rows, news)"
      and res: "tables (snd (exec e d (UPDATE t sets w))) t = rows"
      by (auto simp: UPDATE True Let_def split: option.splits prod.splits sum.splits)
    have "c \<notin> set (map fst sets)"
      using assms(5) by (simp add: UPDATE True)
    from update_rows_keeps [OF upd schema_columns [OF assms(2)] assms(3) this assms(4)
        consistent_table(1) [OF assms(1,2)]]
    show ?thesis
      unfolding UPDATE True res by simp
  qed
qed

text \<open>
  C1, as the schema has it. In every state a session reaches from the empty database,
  every row of every tenant-scoped table has a tenant reference that is not
  \<^verbatim>\<open>NULL\<close>: a UUID. A statement that succeeds and is not an \<^verbatim>\<open>UPDATE\<close> of the
  table with \<^verbatim>\<open>tenant_id\<close> in its \<^verbatim>\<open>SET\<close> list leaves the tenant reference of
  every row it does not delete as it was: the rows that survive keep their places and
  their references, and new rows come after them. (Such an \<^verbatim>\<open>UPDATE\<close> is accepted
  and changes the reference; see the counterexample.)
\<close>

theorem tenant_reference:
  assumes "t \<in> set tenant_scoped"
  shows "(\<forall>r \<in> set (tables (run init_db script) t). \<exists>u. cell r ''tenant_id'' = Some (VUuid u))
    \<and> (\<forall>e s. fst (exec e (run init_db script) s) = None \<longrightarrow> \<not> assigns t ''tenant_id'' s \<longrightarrow>
          take (length (survivors t s (tables (run init_db script) t)))
            (map (\<lambda>r. cell r ''tenant_id'') (tables (snd (exec e (run init_db script) s)) t))
          = map (\<lambda>r. cell r ''tenant_id'') (survivors t s (tables (run init_db script) t)))"
proof -
  from assms tenant_scoped_columns
  have "case map_of schema t of
          None \<Rightarrow> False
        | Some cols \<Rightarrow>
            list_ex (\<lambda>col. fst col = ''tenant_id'' \<and> fst (snd col) = UUID \<and> col_not_null col) cols"
    unfolding list_all_iff by blast
  then obtain cols where cols: "map_of schema t = Some cols"
    and ex: "list_ex (\<lambda>col. fst col = ''tenant_id'' \<and> fst (snd col) = UUID \<and> col_not_null col) cols"
    by (cases "map_of schema t") auto
  from ex obtain col where
    col: "col \<in> set cols" "fst col = ''tenant_id''" "fst (snd col) = UUID" "col_not_null col"
    unfolding list_ex_iff by blast
  obtain cs where col_eq: "col = (''tenant_id'', UUID, cs)"
    using col(2,3) by (cases col) auto
  have mem: "(''tenant_id'', UUID, cs) \<in> set cols" and nn: "col_not_null (''tenant_id'', UUID, cs)"
    using col(1,4) by (simp_all add: col_eq)
  have filled: "\<exists>u. cell r ''tenant_id'' = Some (VUuid u)"
    if r: "r \<in> set (tables (run init_db script) t)" for r
  proof -
    obtain v where v: "cell r ''tenant_id'' = Some v"
      using reachable_cell(1) [OF cols mem r nn] by auto
    show ?thesis
      using coerce_UUID [OF reachable_cell(2) [OF cols mem r v]] v by auto
  qed
  have other: "''tenant_id'' \<noteq> ''updated_at''"
    by simp
  have kept: "take (length (survivors t s (tables (run init_db script) t)))
            (map (\<lambda>r. cell r ''tenant_id'') (tables (snd (exec e (run init_db script) s)) t))
          = map (\<lambda>r. cell r ''tenant_id'') (survivors t s (tables (run init_db script) t))"
    if "fst (exec e (run init_db script) s) = None" "\<not> assigns t ''tenant_id'' s" for e s
    using exec_keeps_column [OF reachable_consistent cols mem other that(2,1)] .
  show ?thesis
    using filled kept by blast
qed

lemma seeded_move_company:
  "(case exec seed_env seeded move_company of
      (err, d) \<Rightarrow> (err, map (\<lambda>r. cell r ''tenant_id'') (tables d ''clients.companies''),
                  map (\<lambda>r. cell r ''tenant_id'') (tables seeded ''clients.companies'')))
     = (None, [Some (VUuid demo_export), Some (VUuid dakahlia)],
        [Some (VUuid dakahlia), Some (VUuid dakahlia)])"
  by code_simp

lemma seeded_rename_company:
  "(case exec seed_env seeded rename_company of
      (err, d) \<Rightarrow> (err, map (\<lambda>r. (cell r ''name'', cell r ''tenant_id'')) (tables d ''clients.companies'')))
     = (None, [(Some (VStr ''Gulf Fresh Foods''), Some (VUuid dakahlia)),
               (Some (VStr ''Saudi Agricultural Imports''), Some (VUuid dakahlia))])"
  by code_simp

theorem tenant_reference_witness:
  "''clients.companies'' \<in> set tenant_scoped
   \<and> map (\<lambda>r. cell r ''tenant_id'') (tables (run init_db seed_script) ''clients.companies'')
       = [Some (VUuid dakahlia), Some (VUuid dakahlia)]
   \<and> (\<exists>u. cell (hd (tables (run init_db seed_script) ''clients.companies'')) ''tenant_id'' = Some (VUuid u))
   \<and> fst (exec seed_env (run init_db seed_script) rename_company) = None
   \<and> \<not> assigns ''clients.companies'' ''tenant_id'' rename_company
   \<and> map (\<lambda>r. cell r ''tenant_id'')
        (tables (snd (exec seed_env (run init_db seed_script) rename_company)) ''clients.companies'')
       = map (\<lambda>r. cell r ''tenant_id'') (tables (run init_db seed_script) ''clients.companies'')"
proof -
  let ?d = "run init_db seed_script"
  let ?t = "''clients.companies''"
  have scoped: "?t \<in> set tenant_scoped"
    by (simp add: tenant_scoped_def)
  have before: "map (\<lambda>r. cell r ''tenant_id'') (tables ?d ?t) = [Some (VUuid dakahlia), Some (VUuid dakahlia)]"
    using seeded_move_company by (auto simp: seeded_def split: prod.splits)
  then obtain r1 r2 where rows: "tables ?d ?t = [r1, r2]"
    by auto
  have mem: "hd (tables ?d ?t) \<in> set (tables ?d ?t)"
    by (simp add: rows)
  have ok: "fst (exec seed_env ?d rename_company) = None"
    and after: "map (\<lambda>r. (cell r ''name'', cell r ''tenant_id'')) (tables (snd (exec seed_env ?d rename_company)) ?t)
      = [(Some (VStr ''Gulf Fresh Foods''), Some (VUuid dakahlia)),
         (Some (VStr ''Saudi Agricultural Imports''), Some (VUuid dakahlia))]"
    using seeded_rename_company by (auto simp: seeded_def split: prod.splits)
  have len: "length (tables (snd (exec seed_env ?d rename_company)) ?t) = 2"
    using arg_cong [OF after, of length] by simp
  have leaves: "\<not> assigns ?t ''tenant_id'' rename_company"
    by (simp add: rename_company_def)
  have surv: "survivors ?t rename_company (tables ?d ?t) = tables ?d ?t"
    by (simp add: rename_company_def)
  note fact = tenant_reference [OF scoped, of seed_script]
  have uuid: "\<exists>u. cell (hd (tables ?d ?t)) ''tenant_id'' = Some (VUuid u)"
    using fact mem by blast
  have "take (length (survivors ?t rename_company (tables ?d ?t)))
          (map (\<lambda>r. cell r ''tenant_id'') (tables (snd (exec seed_env ?d rename_company)) ?t))
        = map (\<lambda>r. cell r ''tenant_id'') (survivors ?t rename_company (tables ?d ?t))"
    using fact ok leaves by blast
  then have "map (\<lambda>r. cell r ''tenant_id'') (tables (snd (exec seed_env ?d rename_company)) ?t)
        = map (\<lambda>r. cell r ''tenant_id'') (tables ?d ?t)"
    unfolding surv using len by (simp add: rows)
  then show ?thesis
    using scoped before uuid ok leaves by simp
qed

text \<open>
  C1 as it is written does not hold: the tenant reference of a row can change. On the
  seeded database, \<^verbatim>\<open>UPDATE clients.companies SET tenant_id = <Demo Export> WHERE
  uuid = <Gulf Fresh Foods>\<close> is accepted and moves the company from one tenant to the
  other.
\<close>

theorem tenant_id_mutable_counterexample:
  "fst (exec seed_env seeded move_company) = None
   \<and> map (\<lambda>r. cell r ''tenant_id'') (tables seeded ''clients.companies'')
       = [Some (VUuid dakahlia), Some (VUuid dakahlia)]
   \<and> map (\<lambda>r. cell r ''tenant_id'') (tables (snd (exec seed_env seeded move_company)) ''clients.companies'')
       = [Some (VUuid demo_export), Some (VUuid dakahlia)]"
  using seeded_move_company by (auto split: prod.splits)

subsection \<open>Foreign keys\<close>

text \<open>
  C2, as the schema has it. In every state a session reaches from the empty database, a
  foreign-key column (the list is \<open>fkeys_eq\<close>: a contact's \<^verbatim>\<open>company_id\<close>, a deal's
  \<^verbatim>\<open>company_id\<close> and \<^verbatim>\<open>contact_id\<close>, an order's \<^verbatim>\<open>deal_id\<close>,
  \<^verbatim>\<open>company_id\<close> and \<^verbatim>\<open>contact_id\<close>, an order item's \<^verbatim>\<open>order_id\<close>, ...)
  that is not \<^verbatim>\<open>NULL\<close> holds the key of a row of the referenced table. (Nothing
  relates the tenants of the two rows; see the counterexample.)
\<close>

theorem foreign_keys_resolve:
  assumes "(t1, c1, t2, c2) \<in> set fkeys"
    and "r \<in> set (tables (run init_db script) t1)" and "cell r c1 \<noteq> None"
  shows "\<exists>r2. r2 \<in> set (tables (run init_db script) t2) \<and> cell r2 c2 = cell r c1"
  using reachable_reference [OF assms] by blast

lemma seeded_foreign_contact:
  "(case exec seed_env seeded insert_foreign_contact of
      (err, d) \<Rightarrow>
        (err, map (\<lambda>r. (cell r ''company_id'', cell r ''tenant_id'')) (tables d ''clients.contacts''),
         map (\<lambda>r. (cell r ''uuid'', cell r ''tenant_id'')) (tables d ''clients.companies'')))
     = (None,
        [(Some (VUuid gulf_fresh), Some (VUuid dakahlia)),
         (Some (VUuid gulf_fresh), Some (VUuid demo_export))],
        [(Some (VUuid gulf_fresh), Some (VUuid dakahlia)),
         (Some (VUuid saudi_agri), Some (VUuid dakahlia))])"
  by code_simp

theorem foreign_keys_resolve_witness:
  "(''clients.contacts'', ''company_id'', ''clients.companies'', ''uuid'') \<in> set fkeys
   \<and> cell (last (tables (run init_db (seed_script @ [(seed_env, insert_foreign_contact)])) ''clients.contacts''))
        ''company_id'' = Some (VUuid gulf_fresh)
   \<and> (\<exists>r2. r2 \<in> set (tables (run init_db (seed_script @ [(seed_env, insert_foreign_contact)]))
                        ''clients.companies'')
           \<and> cell r2 ''uuid'' = Some (VUuid gulf_fresh))"
proof -
  let ?d = "run init_db (seed_script @ [(seed_env, insert_foreign_contact)])"
  let ?r = "last (tables ?d ''clients.contacts'')"
  have run: "?d = snd (exec seed_env seeded insert_foreign_contact)"
    by (simp add: seeded_def seed_script_def)
  have fk: "(''clients.contacts'', ''company_id'', ''clients.companies'', ''uuid'') \<in> set fkeys"
    by (simp add: fkeys_eq)
  have rows: "map (\<lambda>r. (cell r ''company_id'', cell r ''tenant_id'')) (tables ?d ''clients.contacts'')
      = [(Some (VUuid gulf_fresh), Some (VUuid dakahlia)),
         (Some (VUuid gulf_fresh), Some (VUuid demo_export))]"
    unfolding run using seeded_foreign_contact by (auto split: prod.splits)
  then have ne: "tables ?d ''clients.contacts'' \<noteq> []"
    by auto
  have "map (\<lambda>r. (cell r ''company_id'', cell r ''tenant_id'')) (tables ?d ''clients.contacts'') \<noteq> []"
    using rows by simp
  then have "last (map (\<lambda>r. (cell r ''company_id'', cell r ''tenant_id'')) (tables ?d ''clients.contacts''))
      = (Some (VUuid gulf_fresh), Some (VUuid demo_export))"
    unfolding rows by simp
  then have company: "cell ?r ''company_id'' = Some (VUuid gulf_fresh)"
    using ne by (simp add: last_map)
  have mem: "?r \<in> set (tables ?d ''clients.contacts'')"
    using ne by simp
  have "cell ?r ''company_id'' \<noteq> None"
    using company by simp
  from foreign_keys_resolve [OF fk mem this] fk company show ?thesis
    by simp
qed

text \<open>
  C2 as it is written does not hold: a row may reference a row of another tenant. On the
  seeded database, a contact of the tenant Demo Export whose \<^verbatim>\<open>company_id\<close> is Gulf
  Fresh Foods, a company of the tenant Dakahlia, is accepted.
\<close>

theorem cross_tenant_reference_counterexample:
  "fst (exec seed_env seeded insert_foreign_contact) = None
   \<and> map (\<lambda>r. (cell r ''company_id'', cell r ''tenant_id''))
        (tables (snd (exec seed_env seeded insert_foreign_contact)) ''clients.contacts'')
       = [(Some (VUuid gulf_fresh), Some (VUuid dakahlia)),
          (Some (VUuid gulf_fresh), Some (VUuid demo_export))]
   \<and> map (\<lambda>r. (cell r ''uuid'', cell r ''tenant_id''))
        (tables (snd (exec seed_env seeded insert_foreign_contact)) ''clients.companies'')
       = [(Some (VUuid gulf_fresh), Some (VUuid dakahlia)),
          (Some (VUuid saudi_agri), Some (VUuid dakahlia))]
   \<and> dakahlia \<noteq> demo_export"
  using seeded_foreign_contact by (auto split: prod.splits simp: dakahlia_def demo_export_def)

text \<open>
  C4, as the schema has it. An order has one \<^verbatim>\<open>deal_id\<close> column; in every state a
  session reaches from the empty database, an order whose \<^verbatim>\<open>deal_id\<close> is not
  \<^verbatim>\<open>NULL\<close> references exactly one row of \<^verbatim>\<open>deals.deals\<close>. (Nothing relates the
  company of that deal to the company of the order; see the counterexample.)
\<close>

theorem order_references_one_deal:
  assumes "r \<in> set (tables (run init_db script) ''orders.orders'')"
    and "cell r ''deal_id'' \<noteq> None"
  shows "\<exists>!deal. deal \<in> set (tables (run init_db script) ''deals.deals'')
           \<and> cell deal ''uuid'' = cell r ''deal_id''"
proof -
  have fk: "(''orders.orders'', ''deal_id'', ''deals.deals'', ''uuid'') \<in> set fkeys"
    by (simp add: fkeys_eq)
  have uuid_col: "(''uuid'', UUID, [DEFAULT uuid_generate_v4, UNIQUE]) \<in> set deals_deals_columns"
    by (simp add: deals_deals_columns_def)
  have uniq: "col_distinct ''uuid'' (tables (run init_db script) ''deals.deals'')"
    using reachable_distinct [OF deals_lookup uuid_col] by simp
  from reachable_reference [OF fk assms] obtain deal
    where deal: "deal \<in> set (tables (run init_db script) ''deals.deals'')"
      "cell deal ''uuid'' = cell r ''deal_id''"
    by blast
  show ?thesis
  proof (intro ex1I [of _ deal] conjI deal)
    fix other
    assume "other \<in> set (tables (run init_db script) ''deals.deals'')
      \<and> cell other ''uuid'' = cell r ''deal_id''"
    then show "other = deal"
      using col_distinct_inj [OF uniq _ deal(1)] deal(2) assms(2) by simp
  qed
qed

lemma seeded_mismatched_order:
  "(case exec seed_env seeded insert_mismatched_order of
      (err, d) \<Rightarrow>
        (err, map (\<lambda>r. (cell r ''deal_id'', cell r ''company_id'')) (tables d ''orders.orders''),
         map (\<lambda>r. (cell r ''uuid'', cell r ''company_id'')) (tables d ''deals.deals'')))
     = (None,
        [(Some (VUuid vegetables_deal), Some (VUuid saudi_agri))],
        [(Some (VUuid vegetables_deal), Some (VUuid gulf_fresh))])"
  by code_simp

theorem order_references_one_deal_witness:
  "cell (hd (tables (run init_db (seed_script @ [(seed_env, insert_mismatched_order)])) ''orders.orders''))
     ''deal_id'' = Some (VUuid vegetables_deal)
   \<and> (\<exists>!deal. deal \<in> set (tables (run init_db (seed_script @ [(seed_env, insert_mismatched_order)]))
                          ''deals.deals'')
           \<and> cell deal ''uuid'' = Some (VUuid vegetables_deal))"
proof -
  let ?d = "run init_db (seed_script @ [(seed_env, insert_mismatched_order)])"
  let ?r = "hd (tables ?d ''orders.orders'')"
  have run: "?d = snd (exec seed_env seeded insert_mismatched_order)"
    by (simp add: seeded_def seed_script_def)
  have rows: "map (\<lambda>r. (cell r ''deal_id'', cell r ''company_id'')) (tables ?d ''orders.orders'')
      = [(Some (VUuid vegetables_deal), Some (VUuid saudi_agri))]"
    unfolding run using seeded_mismatched_order by (auto split: prod.splits)
  then obtain r0 where r0: "tables ?d ''orders.orders'' = [r0]"
    by auto
  have deal_id: "cell ?r ''deal_id'' = Some (VUuid vegetables_deal)"
    using rows by (simp add: r0)
  have mem: "?r \<in> set (tables ?d ''orders.orders'')"
    by (simp add: r0)
  have "cell ?r ''deal_id'' \<noteq> None"
    using deal_id by simp
  from order_references_one_deal [OF mem this] deal_id show ?thesis
    by simp
qed

text \<open>
  C4 as it is written does not hold: Scenario C is accepted. On the seeded database the
  deal Fresh Vegetables Supply Contract belongs to the company Gulf Fresh Foods; an
  order with that \<^verbatim>\<open>deal_id\<close> and the \<^verbatim>\<open>company_id\<close> of Saudi Agricultural
  Imports is inserted without error.
\<close>

theorem order_deal_company_counterexample:
  "fst (exec seed_env seeded insert_mismatched_order) = None
   \<and> map (\<lambda>r. (cell r ''deal_id'', cell r ''company_id''))
        (tables (snd (exec seed_env seeded insert_mismatched_order)) ''orders.orders'')
       = [(Some (VUuid vegetables_deal), Some (VUuid saudi_agri))]
   \<and> map (\<lambda>r. (cell r ''uuid'', cell r ''company_id''))
        (tables (snd (exec seed_env seeded insert_mismatched_order)) ''deals.deals'')
       = [(Some (VUuid vegetables_deal), Some (VUuid gulf_fresh))]
   \<and> gulf_fresh \<noteq> saudi_agri"
  using seeded_mismatched_order by (auto split: prod.splits simp: gulf_fresh_def saudi_agri_def)

subsection \<open>Audit rows\<close>

text \<open>
  C3, as the schema has it. A statement that is not an \<^verbatim>\<open>UPDATE\<close> or a
  \<^verbatim>\<open>DELETE\<close> on \<^verbatim>\<open>audit_logs\<close> itself leaves every audit row as it was: the
  table afterwards is the table before, followed by the rows the statement added, if
  any. (\<^verbatim>\<open>UPDATE\<close> and \<^verbatim>\<open>DELETE\<close> on \<^verbatim>\<open>audit_logs\<close> are accepted; see the
  counterexample.)
\<close>

theorem audit_rows_kept:
  assumes "\<not> rewrites_audit_logs s"
  shows "\<exists>added. tables (snd (exec e d s)) ''audit_logs'' = tables d ''audit_logs'' @ added"
proof (cases s)
  case (INSERT t names rows)
  then show ?thesis
    using exec_insert_appends by simp
next
  case (UPDATE t sets w)
  then have "tables (snd (exec e d s)) ''audit_logs'' = tables d ''audit_logs''"
    using assms by (intro exec_other_table) auto
  then show ?thesis by simp
next
  case (DELETE t w)
  then have "tables (snd (exec e d s)) ''audit_logs'' = tables d ''audit_logs''"
    using assms by (intro exec_other_table) auto
  then show ?thesis by simp
qed

lemma audit_then_deal:
  "(let d = run init_db [(seed_env, insert_dakahlia), (seed_env, insert_audit)]
    in case exec seed_env d insert_odd_deal of
         (err, d') \<Rightarrow>
           (err, map (\<lambda>r. (cell r ''action'', cell r ''is_active'')) (tables d ''audit_logs''),
            map (\<lambda>r. (cell r ''action'', cell r ''is_active'')) (tables d' ''audit_logs'')))
     = (None, [(Some (VStr ''create''), Some (VBool True))],
        [(Some (VStr ''create''), Some (VBool True))])"
  by code_simp

theorem audit_rows_kept_witness:
  "\<not> rewrites_audit_logs insert_odd_deal
   \<and> fst (exec seed_env (run init_db [(seed_env, insert_dakahlia), (seed_env, insert_audit)])
        insert_odd_deal) = None
   \<and> (\<exists>added.
         tables (snd (exec seed_env (run init_db [(seed_env, insert_dakahlia), (seed_env, insert_audit)])
             insert_odd_deal)) ''audit_logs''
         = tables (run init_db [(seed_env, insert_dakahlia), (seed_env, insert_audit)]) ''audit_logs''
           @ added)"
proof -
  have other: "\<not> rewrites_audit_logs insert_odd_deal"
    by (simp add: insert_odd_deal_def)
  have "fst (exec seed_env (run init_db [(seed_env, insert_dakahlia), (seed_env, insert_audit)])
        insert_odd_deal) = None"
    using audit_then_deal by (auto simp: Let_def split: prod.splits)
  then show ?thesis
    using audit_rows_kept [OF other] other by blast
qed

text \<open>
  C3 as it is written does not hold: audit rows can be rewritten, deactivated and
  deleted. After one audit row is inserted, \<^verbatim>\<open>UPDATE audit_logs SET is_active =
  FALSE, action = 'delete'\<close> is accepted and changes the row (the table's own
  \<^verbatim>\<open>update_audit_logs_updated_at\<close> trigger stamps it), and \<^verbatim>\<open>DELETE FROM
  audit_logs\<close> is accepted and removes it.
\<close>

lemma audit_rewritten:
  "(let d = run init_db [(seed_env, insert_audit)]
    in (map (\<lambda>r. (cell r ''action'', cell r ''is_active'', cell r ''updated_at'')) (tables d ''audit_logs''),
        (case exec (seed_env\<lparr>now := 1755216000000001\<rparr>) d deactivate_audit of
           (err, d') \<Rightarrow>
             (err, map (\<lambda>r. (cell r ''action'', cell r ''is_active'', cell r ''updated_at''))
                     (tables d' ''audit_logs''))),
        (case exec seed_env d delete_audit of
           (err, d') \<Rightarrow> (err, length (tables d' ''audit_logs'')))))
     = ([(Some (VStr ''create''), Some (VBool True), Some (VTime 1755216000000000))],
        (None, [(Some (VStr ''delete''), Some (VBool False), Some (VTime 1755216000000001))]),
        (None, 0))"
  by code_simp

theorem audit_rows_rewritten_counterexample:
  "map (\<lambda>r. (cell r ''action'', cell r ''is_active'', cell r ''updated_at''))
     (tables (run init_db [(seed_env, insert_audit)]) ''audit_logs'')
     = [(Some (VStr ''create''), Some (VBool True), Some (VTime 1755216000000000))]
   \<and> fst (exec (seed_env\<lparr>now := 1755216000000001\<rparr>) (run init_db [(seed_env, insert_audit)])
        deactivate_audit) = None
   \<and> map (\<lambda>r. (cell r ''action'', cell r ''is_active'', cell r ''updated_at''))
        (tables (snd (exec (seed_env\<lparr>now := 1755216000000001\<rparr>) (run init_db [(seed_env, insert_audit)])
           deactivate_audit)) ''audit_logs'')
       = [(Some (VStr ''delete''), Some (VBool False), Some (VTime 1755216000000001))]
   \<and> fst (exec seed_env (run init_db [(seed_env, insert_audit)]) delete_audit) = None
   \<and> tables (snd (exec seed_env (run init_db [(seed_env, insert_audit)]) delete_audit)) ''audit_logs''
       = []"
  using audit_rewritten by (auto simp: Let_def split: prod.splits)

subsection \<open>Tenant slugs\<close>




subsection \<open>Primary contacts\<close>

text \<open>
  C6, as the schema has it. \<^verbatim>\<open>is_primary\<close> is an ordinary boolean column that
  defaults to \<^verbatim>\<open>FALSE\<close>: a contact inserted without it is stored as not primary,
  after the contacts already there. (Nothing bounds the number of primary contacts of a
  company; see the counterexample.)
\<close>

theorem contact_primary_default:
  assumes "exec e d (INSERT ''clients.contacts'' names [vals]) = (None, d')"
    and "''is_primary'' \<notin> set names"
  shows "\<exists>r. tables d' ''clients.contacts'' = tables d ''clients.contacts'' @ [r]
           \<and> cell r ''is_primary'' = Some (VBool False)"
proof -
  let ?cols = clients_contacts_columns
  have primary_col: "(''is_primary'', BOOLEAN, [DEFAULT (Literal (VBool False))]) \<in> set ?cols"
    by (simp add: clients_contacts_columns_def)
  have dist: "distinct (map fst ?cols)"
    by (rule schema_columns [OF contacts_lookup])
  from exec_insert_one [OF assms(1) contacts_lookup] obtain r
    where chk: "check_row ''clients.contacts'' ?cols (tables d ''clients.contacts'')
        (build_row e 0 (seqs d) ''clients.contacts'' ?cols (zip names vals)) = Inr r"
      and rows: "tables d' ''clients.contacts'' = tables d ''clients.contacts'' @ [r]"
    by blast
  have "map_of (zip names vals) ''is_primary'' = None"
    using assms(2) by (auto simp: map_of_eq_None_iff dest: set_zip_leftD)
  then have "cell (build_row e 0 (seqs d) ''clients.contacts'' ?cols (zip names vals)) ''is_primary''
      = Some (VBool False)"
    using cell_build_row [OF primary_col dist] by (simp add: default_value_def)
  then have "coerce_cell ''clients.contacts'' ''is_primary'' BOOLEAN (Some (VBool False))
      = Inr (cell r ''is_primary'')"
    using coerce_row_cell_of [OF check_row_ok(3) [OF chk dist] dist primary_col] by simp
  then have "cell r ''is_primary'' = Some (VBool False)"
    by (simp add: coerce_def)
  then show ?thesis
    using rows by blast
qed

lemma seeded_second_primary:
  "(case exec seed_env seeded insert_second_primary of
      (err, d) \<Rightarrow>
        (err, map (\<lambda>r. (cell r ''company_id'', cell r ''last_name'', cell r ''is_primary''))
                (tables d ''clients.contacts'')))
     = (None,
        [(Some (VUuid gulf_fresh), Some (VStr ''Al-Rashid''), Some (VBool True)),
         (Some (VUuid gulf_fresh), Some (VStr ''Al-Saud''), Some (VBool True))])"
  by code_simp

lemma seeded_plain_contact:
  "(case exec seed_env seeded (INSERT ''clients.contacts''
           [''company_id'', ''first_name'', ''last_name'', ''tenant_id'']
           [[Some (VUuid gulf_fresh), Some (VStr ''Fatima''), Some (VStr ''Al-Sabah''),
             Some (VUuid dakahlia)]]) of
      (err, d) \<Rightarrow> (err, length (tables d ''clients.contacts'')))
     = (None, 2)"
  by code_simp

theorem contact_primary_default_witness:
  "fst (exec seed_env seeded (INSERT ''clients.contacts''
           [''company_id'', ''first_name'', ''last_name'', ''tenant_id'']
           [[Some (VUuid gulf_fresh), Some (VStr ''Fatima''), Some (VStr ''Al-Sabah''),
             Some (VUuid dakahlia)]])) = None
   \<and> (\<exists>r. tables (snd (exec seed_env seeded (INSERT ''clients.contacts''
           [''company_id'', ''first_name'', ''last_name'', ''tenant_id'']
           [[Some (VUuid gulf_fresh), Some (VStr ''Fatima''), Some (VStr ''Al-Sabah''),
             Some (VUuid dakahlia)]]))) ''clients.contacts''
           = tables seeded ''clients.contacts'' @ [r]
         \<and> cell r ''is_primary'' = Some (VBool False))"
proof -
  let ?s = "INSERT ''clients.contacts'' [''company_id'', ''first_name'', ''last_name'', ''tenant_id'']
     [[Some (VUuid gulf_fresh), Some (VStr ''Fatima''), Some (VStr ''Al-Sabah''), Some (VUuid dakahlia)]]"
  have ok: "fst (exec seed_env seeded ?s) = None"
    using seeded_plain_contact by (auto split: prod.splits)
  then have run: "exec seed_env seeded ?s = (None, snd (exec seed_env seeded ?s))"
    by (metis prod.collapse)
  have omitted: "''is_primary'' \<notin> set [''company_id'', ''first_name'', ''last_name'', ''tenant_id'']"
    by simp
  from contact_primary_default [OF run omitted] ok show ?thesis
    by blast
qed

text \<open>
  C6 as it is written does not hold: a company can have two primary contacts. On the
  seeded database Gulf Fresh Foods has the primary contact Al-Rashid; a second contact
  of the same company with \<^verbatim>\<open>is_primary = TRUE\<close> is accepted.
\<close>

theorem two_primary_contacts_counterexample:
  "fst (exec seed_env seeded insert_second_primary) = None
   \<and> map (\<lambda>r. (cell r ''company_id'', cell r ''last_name'', cell r ''is_primary''))
        (tables (snd (exec seed_env seeded insert_second_primary)) ''clients.contacts'')
       = [(Some (VUuid gulf_fresh), Some (VStr ''Al-Rashid''), Some (VBool True)),
          (Some (VUuid gulf_fresh), Some (VStr ''Al-Saud''), Some (VBool True))]"
  using seeded_second_primary by (auto split: prod.splits)

subsection \<open>Deals\<close>

text \<open>
  C8, as the schema has it. In every state a session reaches from the empty database,
  the stage of a deal is \<^verbatim>\<open>NULL\<close> or a string of at most 50 characters, and its
  probability is \<^verbatim>\<open>NULL\<close> or an integer of 32 bits. (No constraint names the six
  stages or the range 0 to 100; see the counterexample.)
\<close>

theorem deal_stage_probability_types:
  assumes "r \<in> set (tables (run init_db script) ''deals.deals'')"
  shows "(cell r ''stage'' = None \<or> (\<exists>s. cell r ''stage'' = Some (VStr s) \<and> length s \<le> 50))
    \<and> (cell r ''probability'' = None
        \<or> (\<exists>i. cell r ''probability'' = Some (VInt i) \<and> - 2147483648 \<le> i \<and> i \<le> 2147483647))"
proof -
  have stage_col: "(''stage'', VARCHAR 50, [DEFAULT (Literal (VStr ''lead''))]) \<in> set deals_deals_columns"
    and probability_col: "(''probability'', INTEGER, [DEFAULT (Literal (VInt 0))]) \<in> set deals_deals_columns"
    by (simp_all add: deals_deals_columns_def)
  have stage: "cell r ''stage'' = None \<or> (\<exists>s. cell r ''stage'' = Some (VStr s) \<and> length s \<le> 50)"
  proof (cases "cell r ''stage''")
    case None
    then show ?thesis by simp
  next
    case (Some v)
    then show ?thesis
      using coerce_VARCHAR [OF reachable_cell(2) [OF deals_lookup stage_col assms Some]] by simp
  qed
  have probability: "cell r ''probability'' = None
      \<or> (\<exists>i. cell r ''probability'' = Some (VInt i) \<and> - 2147483648 \<le> i \<and> i \<le> 2147483647)"
  proof (cases "cell r ''probability''")
    case None
    then show ?thesis by simp
  next
    case (Some v)
    then show ?thesis
      using coerce_INTEGER [OF reachable_cell(2) [OF deals_lookup probability_col assms Some]] by simp
  qed
  show ?thesis
    using stage probability by blast
qed

lemma seeded_odd_deal:
  "(case exec seed_env seeded insert_odd_deal of
      (err, d) \<Rightarrow>
        (err, map (\<lambda>r. (cell r ''stage'', cell r ''probability'')) (tables d ''deals.deals'')))
     = (None,
        [(Some (VStr ''negotiation''), Some (VInt 75)),
         (Some (VStr ''archived''), Some (VInt 150))])"
  by code_simp

theorem deal_stage_probability_types_witness:
  "cell (last (tables (run init_db (seed_script @ [(seed_env, insert_odd_deal)])) ''deals.deals'')) ''stage''
     = Some (VStr ''archived'')
   \<and> cell (last (tables (run init_db (seed_script @ [(seed_env, insert_odd_deal)])) ''deals.deals''))
       ''probability'' = Some (VInt 150)
   \<and> (\<exists>s. cell (last (tables (run init_db (seed_script @ [(seed_env, insert_odd_deal)])) ''deals.deals''))
           ''stage'' = Some (VStr s) \<and> length s \<le> 50)"
proof -
  let ?d = "run init_db (seed_script @ [(seed_env, insert_odd_deal)])"
  let ?r = "last (tables ?d ''deals.deals'')"
  have run: "?d = snd (exec seed_env seeded insert_odd_deal)"
    by (simp add: seeded_def seed_script_def)
  have rows: "map (\<lambda>r. (cell r ''stage'', cell r ''probability'')) (tables ?d ''deals.deals'')
      = [(Some (VStr ''negotiation''), Some (VInt 75)), (Some (VStr ''archived''), Some (VInt 150))]"
    unfolding run using seeded_odd_deal by (auto split: prod.splits)
  then obtain r1 r2 where r12: "tables ?d ''deals.deals'' = [r1, r2]"
    by auto
  have cells: "cell ?r ''stage'' = Some (VStr ''archived'')" "cell ?r ''probability'' = Some (VInt 150)"
    using rows by (simp_all add: r12)
  have mem: "?r \<in> set (tables ?d ''deals.deals'')"
    by (simp add: r12)
  from deal_stage_probability_types [OF mem] cells show ?thesis
    by simp
qed

text \<open>
  C8 as it is written does not hold: a deal with a stage outside the six values and a
  probability above 100 is accepted. On the seeded database a deal with stage
  \<^verbatim>\<open>'archived'\<close> and probability 150 is inserted without error.
\<close>

theorem deal_stage_probability_counterexample:
  "fst (exec seed_env seeded insert_odd_deal) = None
   \<and> map (\<lambda>r. (cell r ''stage'', cell r ''probability''))
        (tables (snd (exec seed_env seeded insert_odd_deal)) ''deals.deals'')
       = [(Some (VStr ''negotiation''), Some (VInt 75)),
          (Some (VStr ''archived''), Some (VInt 150))]
   \<and> ''archived'' \<notin> set [''lead'', ''qualified'', ''proposal'', ''negotiation'', ''won'', ''lost'']
   \<and> \<not> (150::int) \<le> 100"
  using seeded_odd_deal by (auto split: prod.splits)


end
